theory Spec2Isabelle
  imports Complex_Main "HOL-Library.List_Lexorder" "HOL-Library.Multiset"
begin

unbundle bit_operations_syntax

chapter \<open>The core of the regular-rag backend\<close>

text \<open>
  A shallow embedding of the retrieval pipeline, the knowledge-graph build and the
  ingestion policy of the repository, file by file, followed by the properties of the
  specification that were stated over it. The language models, the embedding service,
  the answers of the database to the search queries, the case tables and the number
  printer of the runtime and the conversion of the database to single precision are
  parameters; the tables the code writes are part of the state.
\<close>

section \<open>Values of the runtime\<close>

subsection \<open>Strings\<close>

text \<open>
  A JavaScript string is a sequence of UTF-16 code units; \<open>length\<close>, \<open>slice\<close>,
  \<open>lastIndexOf\<close> and the default ordering of \<open>sort\<close> all count and compare
  code units. A string is therefore a list of code units, each a natural number.
  \<open>str\<close> turns an ASCII literal into such a string.
\<close>

type_synonym jsstring = "nat list"

definition str :: "string \<Rightarrow> jsstring" where
  "str s = map of_char s"

text \<open>
  \<open>String.prototype.toLowerCase\<close>. On a string of ASCII characters the result is the same
  in every version of the Unicode case tables: the capitals \<open>A\<close> to \<open>Z\<close> become \<open>a\<close> to
  \<open>z\<close>, every other character stays. On any other string the result is decided by the
  case tables of the runtime (full case mapping, which can change the length of the
  string, and the rule for the final sigma); they are not part of the repository, so what
  the runtime returns for such a string is the parameter \<open>unicodeLower\<close>.
\<close>

type_synonym caseMapping = "jsstring \<Rightarrow> jsstring"

definition toLowerUnit :: "nat \<Rightarrow> nat" where
  "toLowerUnit c = (if 65 \<le> c \<and> c \<le> 90 then c + 32 else c)"

definition isAscii :: "jsstring \<Rightarrow> bool" where
  "isAscii s = list_all (\<lambda>c. c < 128) s"

definition toLowerCase :: "caseMapping \<Rightarrow> jsstring \<Rightarrow> jsstring" where
  "toLowerCase unicodeLower s = (if isAscii s then map toLowerUnit s else unicodeLower s)"

text \<open>\<open>Array.prototype.join\<close> on an array of strings.\<close>

fun join :: "jsstring \<Rightarrow> jsstring list \<Rightarrow> jsstring" where
  "join sep [] = []"
| "join sep [x] = x"
| "join sep (x # y # ys) = x @ sep @ join sep (y # ys)"

subsection \<open>Numbers\<close>

text \<open>
  A JavaScript number is a finite value or one of \<open>NaN\<close>, \<open>Infinity\<close>, \<open>-Infinity\<close>.
  Finite values are taken as reals: the arithmetic the code does on them (\<open>Math.floor\<close>,
  \<open>Math.min\<close>, \<open>Math.max\<close>, the reciprocal ranks of the fusion) is then exact.
\<close>

datatype jsnum = Finite real | NaN | PosInf | NegInf

definition isFinite :: "jsnum \<Rightarrow> bool" where
  "isFinite x = (case x of Finite r \<Rightarrow> True | _ \<Rightarrow> False)"

subsection \<open>JSON values\<close>

text \<open>
  The values that reach \<open>JSON.stringify\<close>: an object is the list of its own enumerable
  properties in property order, with pairwise distinct keys. \<open>JObj\<close> is an object that
  inherits from \<open>Object.prototype\<close> (an object literal, the result of \<open>JSON.parse\<close>, of
  a spread); \<open>JBare\<close> is an object that does not, such as one made by
  \<open>Object.create(null)\<close>: \<open>v instanceof Object\<close> is true of the first and false of the
  second.
\<close>

datatype jsval =
    JUndefined
  | JNull
  | JBool bool
  | JNum jsnum
  | JStr jsstring
  | JArr "jsval list"
  | JObj "(jsstring \<times> jsval) list"
  | JBare "(jsstring \<times> jsval) list"

text \<open>
  What the code throws or lets through from a collaborator: the two checks of an
  embedding, a failing provider, the \<open>TypeError\<close> of the runtime, and the refusals of the
  database (an \<open>integer\<close> column or identity sequence beyond \<open>2^31 - 1\<close>, a number that
  the column type \<open>real\<close> does not take).
\<close>

datatype error =
    DimensionMismatch nat nat
  | InvalidEmbedding
  | ProviderError jsstring
  | TypeError
  | IntegerOutOfRange
  | SequenceLimit
  | RealOutOfRange

section \<open>SHA-256 digests (node:crypto)\<close>

text \<open>
  \<open>createHash("sha256").update(s).digest("hex")\<close>: the string is encoded in UTF-8, the
  bytes are hashed, the digest is printed in lower-case hexadecimal. Words of 32 bits are
  natural numbers below \<open>2^32\<close>; addition wraps by \<open>mod 4294967296\<close>.
\<close>

text \<open>UTF-8 of a sequence of UTF-16 code units; a lone surrogate becomes U+FFFD.\<close>

fun utf8 :: "jsstring \<Rightarrow> nat list" where
  "utf8 [] = []"
| "utf8 [c] =
     (if c < 128 then [c]
      else if c < 2048 then [192 + c div 64, 128 + c mod 64]
      else if 55296 \<le> c \<and> c < 57344 then [239, 191, 189]
      else [224 + c div 4096, 128 + (c div 64) mod 64, 128 + c mod 64])"
| "utf8 (c # d # cs) =
     (if c < 128 then [c] @ utf8 (d # cs)
      else if c < 2048 then [192 + c div 64, 128 + c mod 64] @ utf8 (d # cs)
      else if 55296 \<le> c \<and> c < 56320 \<and> 56320 \<le> d \<and> d < 57344
        then [240 + (65536 + (c - 55296) * 1024 + (d - 56320)) div 262144,
              128 + ((65536 + (c - 55296) * 1024 + (d - 56320)) div 4096) mod 64,
              128 + ((65536 + (c - 55296) * 1024 + (d - 56320)) div 64) mod 64,
              128 + (65536 + (c - 55296) * 1024 + (d - 56320)) mod 64] @ utf8 cs
      else if 55296 \<le> c \<and> c < 57344 then [239, 191, 189] @ utf8 (d # cs)
      else [224 + c div 4096, 128 + (c div 64) mod 64, 128 + c mod 64] @ utf8 (d # cs))"

definition add32 :: "nat \<Rightarrow> nat \<Rightarrow> nat" where
  "add32 x y = (x + y) mod 4294967296"

text \<open>
  Rotation to the right by \<open>n\<close> bits, given as \<open>rotr (2^n) (2^(32 - n))\<close>: the high bits
  move down, the low \<open>n\<close> bits move to the top.
\<close>

definition rotr :: "nat \<Rightarrow> nat \<Rightarrow> nat \<Rightarrow> nat" where
  "rotr p q x = x div p + (x mod p) * q"

definition bsig0 :: "nat \<Rightarrow> nat" where
  "bsig0 x = rotr 4 1073741824 x XOR rotr 8192 524288 x XOR rotr 4194304 1024 x"

definition bsig1 :: "nat \<Rightarrow> nat" where
  "bsig1 x = rotr 64 67108864 x XOR rotr 2048 2097152 x XOR rotr 33554432 128 x"

definition ssig0 :: "nat \<Rightarrow> nat" where
  "ssig0 x = rotr 128 33554432 x XOR rotr 262144 16384 x XOR x div 8"

definition ssig1 :: "nat \<Rightarrow> nat" where
  "ssig1 x = rotr 131072 32768 x XOR rotr 524288 8192 x XOR x div 1024"

definition ch :: "nat \<Rightarrow> nat \<Rightarrow> nat \<Rightarrow> nat" where
  "ch x y z = (x AND y) XOR ((4294967295 - x) AND z)"

definition maj :: "nat \<Rightarrow> nat \<Rightarrow> nat \<Rightarrow> nat" where
  "maj x y z = (x AND y) XOR (x AND z) XOR (y AND z)"

definition roundConstants :: "nat list" where
  "roundConstants =
     [1116352408, 1899447441, 3049323471, 3921009573, 961987163, 1508970993,
      2453635748, 2870763221, 3624381080, 310598401, 607225278, 1426881987,
      1925078388, 2162078206, 2614888103, 3248222580, 3835390401, 4022224774,
      264347078, 604807628, 770255983, 1249150122, 1555081692, 1996064986,
      2554220882, 2821834349, 2952996808, 3210313671, 3336571891, 3584528711,
      113926993, 338241895, 666307205, 773529912, 1294757372, 1396182291,
      1695183700, 1986661051, 2177026350, 2456956037, 2730485921, 2820302411,
      3259730800, 3345764771, 3516065817, 3600352804, 4094571909, 275423344,
      430227734, 506948616, 659060556, 883997877, 958139571, 1322822218,
      1537002063, 1747873779, 1955562222, 2024104815, 2227730452, 2361852424,
      2428436474, 2756734187, 3204031479, 3329325298]"

definition initialHash :: "nat list" where
  "initialHash =
     [1779033703, 3144134277, 1013904242, 2773480762, 1359893119, 2600822924,
      528734635, 1541459225]"

definition temp1 :: "nat \<Rightarrow> nat \<Rightarrow> nat \<Rightarrow> nat \<Rightarrow> nat \<Rightarrow> nat \<Rightarrow> nat" where
  "temp1 k w e f g h = add32 (add32 (add32 (add32 h (bsig1 e)) (ch e f g)) k) w"

definition temp2 :: "nat \<Rightarrow> nat \<Rightarrow> nat \<Rightarrow> nat" where
  "temp2 a b c = add32 (bsig0 a) (maj a b c)"

fun shiftState :: "nat \<Rightarrow> nat \<Rightarrow> nat list \<Rightarrow> nat list" where
  "shiftState x y [a, b, c, d, e, f, g, h] = [add32 x y, a, b, c, add32 d x, e, f, g]"
| "shiftState x y st = st"

fun roundStep :: "nat \<Rightarrow> nat \<Rightarrow> nat list \<Rightarrow> nat list" where
  "roundStep k w [a, b, c, d, e, f, g, h] =
     shiftState (temp1 k w e f g h) (temp2 a b c) [a, b, c, d, e, f, g, h]"
| "roundStep k w st = st"

text \<open>
  The message schedule as a window of sixteen words: the head is the word of the current
  round, and the word sixteen rounds ahead is appended.
\<close>

fun nextWindow :: "nat list \<Rightarrow> nat list" where
  "nextWindow [w0, w1, w2, w3, w4, w5, w6, w7, w8, w9, w10, w11, w12, w13, w14, w15] =
     [w1, w2, w3, w4, w5, w6, w7, w8, w9, w10, w11, w12, w13, w14, w15,
      add32 (add32 (add32 (ssig1 w14) w9) (ssig0 w1)) w0]"
| "nextWindow ws = ws"

fun rounds :: "nat list \<Rightarrow> nat list \<Rightarrow> nat list \<Rightarrow> nat list" where
  "rounds [] ws st = st"
| "rounds (k # ks) ws st = rounds ks (nextWindow ws) (roundStep k (hd ws) st)"

fun bigEndianWords :: "nat list \<Rightarrow> nat list" where
  "bigEndianWords (a # b # c # d # rest) = (((a * 256 + b) * 256 + c) * 256 + d) # bigEndianWords rest"
| "bigEndianWords bs = []"

definition compress :: "nat list \<Rightarrow> nat list \<Rightarrow> nat list" where
  "compress hs block = map2 add32 hs (rounds roundConstants (bigEndianWords block) hs)"

definition lengthBytes :: "nat \<Rightarrow> nat list" where
  "lengthBytes n = map (\<lambda>p. (n div p) mod 256)
     [72057594037927936, 281474976710656, 1099511627776, 4294967296, 16777216, 65536, 256, 1]"

definition pad :: "nat list \<Rightarrow> nat list" where
  "pad m = m @ [128] @ replicate ((119 - length m mod 64) mod 64) 0 @ lengthBytes (8 * length m)"

function blocks :: "nat list \<Rightarrow> nat list list" where
  "blocks bs = (if length bs < 64 then [] else take 64 bs # blocks (drop 64 bs))"
  by pat_completeness auto
termination
  by (relation "measure length") auto

definition sha256 :: "nat list \<Rightarrow> nat list" where
  "sha256 m = foldl compress initialHash (blocks (pad m))"

definition hexDigit :: "nat \<Rightarrow> nat" where
  "hexDigit n = (if n < 10 then 48 + n else 87 + n)"

definition hexWord :: "nat \<Rightarrow> jsstring" where
  "hexWord w = map (\<lambda>p. hexDigit ((w div p) mod 16))
     [268435456, 16777216, 1048576, 65536, 4096, 256, 16, 1]"

definition sha256_hex :: "jsstring \<Rightarrow> jsstring" where
  "sha256_hex s = concat (map hexWord (sha256 (utf8 s)))"

section \<open>Identities of nodes and edges (services/GraphExtractor.ts)\<close>

text \<open>
  \<open>generateNodeId\<close>: the digest of \<open>`${name.toLowerCase()}::${type}`\<close>, cut to sixteen
  characters. \<open>unicodeLower\<close> is the case mapping of the runtime on strings that are not
  ASCII.
\<close>

definition generateNodeId :: "caseMapping \<Rightarrow> jsstring \<Rightarrow> jsstring \<Rightarrow> jsstring" where
  "generateNodeId unicodeLower name type =
     str ''node_'' @ take 16 (sha256_hex (toLowerCase unicodeLower name @ str ''::'' @ type))"

definition generateEdgeId :: "jsstring \<Rightarrow> jsstring \<Rightarrow> jsstring \<Rightarrow> jsstring" where
  "generateEdgeId sourceId targetId relationType =
     str ''edge_'' @ sourceId @ str ''_'' @ relationType @ str ''_'' @ targetId"

section \<open>Search plans (types/llm.ts)\<close>

record NavigationIntent =
  target_route_key :: "jsstring option"
  patient_name :: "jsstring option"

record SearchPlan =
  should_search :: bool
  search_query :: jsstring
  top_k :: "jsnum option"
  reason :: "jsstring option"
  knowledge_source :: "jsstring option"
  identified_entities :: "jsstring list option"
  navigation_intent :: "NavigationIntent option"

text \<open>
  \<open>normalizeSearchPlan(plan, defaultTopK = 5, minTopK = 1, maxTopK = 8)\<close>: the function
  with its three optional parameters, and the call every caller makes, with the defaults.
\<close>

definition normalizeSearchPlanWith :: "SearchPlan \<Rightarrow> real \<Rightarrow> real \<Rightarrow> real \<Rightarrow> SearchPlan" where
  "normalizeSearchPlanWith plan defaultTopK minTopK maxTopK =
     (let rawTopK = top_k plan;
          topK = (case rawTopK of
                    Some (Finite r) \<Rightarrow> min maxTopK (max minTopK (of_int \<lfloor>r\<rfloor>))
                  | _ \<Rightarrow> defaultTopK)
      in plan\<lparr>top_k := Some (Finite topK)\<rparr>)"

definition normalizeSearchPlan :: "SearchPlan \<Rightarrow> SearchPlan" where
  "normalizeSearchPlan plan = normalizeSearchPlanWith plan 5 1 8"

section \<open>The response cache (repositories/CacheRepository.ts)\<close>

text \<open>
  The table \<open>chatbot_cache\<close> of db/schema.ts: its rows in storage order and the identity
  sequence that numbers them. Timestamps are clock readings, given to each operation as
  \<open>now\<close>. \<open>id\<close> and \<open>hit_count\<close> are columns of type \<open>integer\<close>: four bytes, at most
  \<open>2^31 - 1\<close>; the database refuses a statement that computes a larger value, and a
  refused statement changes nothing. \<open>request_hash\<close> is declared unique.
\<close>

definition INT4_MAX :: int where
  "INT4_MAX = 2147483647"

record CacheRow =
  cacheId :: int
  requestHash :: jsstring
  question :: jsstring
  cacheContext :: "(jsstring \<times> jsval) list option"
  response :: jsstring
  hitCount :: int
  lastHitAt :: "nat option"
  createdAt :: nat
  updatedAt :: nat

record CacheTable =
  cacheRows :: "CacheRow list"
  cacheSeq :: int

definition findByHash :: "CacheTable \<Rightarrow> jsstring \<Rightarrow> CacheRow option" where
  "findByHash tbl h = find (\<lambda>r. requestHash r = h) (cacheRows tbl)"


text \<open>
  \<open>UPDATE chatbot_cache SET hit_count = hit_count + 1, last_hit_at = now()
  WHERE request_hash = hash\<close>: every row the condition selects is rewritten, the others
  stay. When \<open>hit_count + 1\<close> of a selected row is beyond the column type the database
  answers \<open>integer out of range\<close>, the promise rejects and no row is rewritten.
\<close>

definition incrementHitCount :: "nat \<Rightarrow> jsstring \<Rightarrow> CacheTable \<Rightarrow> error + CacheTable" where
  "incrementHitCount now h tbl =
     (if list_ex (\<lambda>r. requestHash r = h \<and> INT4_MAX < hitCount r + 1) (cacheRows tbl)
      then Inl IntegerOutOfRange
      else Inr (tbl\<lparr>cacheRows :=
                  map (\<lambda>r. if requestHash r = h
                            then r\<lparr>hitCount := hitCount r + 1, lastHitAt := Some now\<rparr>
                            else r) (cacheRows tbl)\<rparr>))"

section \<open>Hybrid search (repositories/RagRepository.ts)\<close>

text \<open>
  The rows the two queries of the repository select. What the database answers is a
  parameter of the model: \<open>vectorQuery\<close> stands for the nearest-neighbour query of
  \<open>findByVector\<close>, \<open>textQuery\<close> for the full-text query of \<open>findByText\<close>; each is given
  the search argument, the limit and the screen the \<open>WHERE\<close> clause filters on.
\<close>

record VectorRow =
  vrId :: jsstring
  vrPath :: "jsstring option"
  vrContent :: jsstring
  vrDistance :: "real option"
  vrScreen :: "jsstring option"
  vrMetadata :: "jsval option"

record TextRow =
  trId :: jsstring
  trPath :: "jsstring option"
  trContent :: jsstring
  trRank :: real
  trScreen :: "jsstring option"
  trMetadata :: "jsval option"

record RagResult =
  resId :: jsstring
  resPath :: jsstring
  resContent :: jsstring
  resScreen :: "jsstring option"
  resDistance :: "real option"
  resRank :: "real option"
  vectorScore :: "real option"
  textScore :: "real option"
  combinedScore :: real
  resMetadata :: "jsval option"

type_synonym vectorQuery = "jsnum list \<Rightarrow> nat \<Rightarrow> jsstring option \<Rightarrow> VectorRow list"
type_synonym textQuery = "jsstring \<Rightarrow> nat \<Rightarrow> jsstring option \<Rightarrow> TextRow list"

text \<open>\<open>screen ? eq(ragDocuments.screen, screen) : undefined\<close>: an empty screen filters nothing.\<close>

definition screenFilter :: "jsstring option \<Rightarrow> jsstring option" where
  "screenFilter screen = (case screen of Some s \<Rightarrow> if s = [] then None else Some s | None \<Rightarrow> None)"

definition orElse :: "'a option \<Rightarrow> 'a \<Rightarrow> 'a" where
  "orElse x d = (case x of Some v \<Rightarrow> v | None \<Rightarrow> d)"

text \<open>
  The result of \<open>findByVector\<close> and of \<open>findByText\<close>, already in the shape the fusion
  spreads into a \<open>RagResult\<close>; \<open>combinedScore\<close> is filled in by the fusion.
\<close>

definition vectorHit :: "VectorRow \<Rightarrow> RagResult" where
  "vectorHit r =
     \<lparr>resId = vrId r, resPath = orElse (vrPath r) [], resContent = vrContent r,
      resScreen = vrScreen r, resDistance = vrDistance r, resRank = None,
      vectorScore = Some (1 / (1 + orElse (vrDistance r) 0)), textScore = None,
      combinedScore = 0, resMetadata = vrMetadata r\<rparr>"

definition textHit :: "TextRow \<Rightarrow> RagResult" where
  "textHit r =
     \<lparr>resId = trId r, resPath = orElse (trPath r) [], resContent = trContent r,
      resScreen = trScreen r, resDistance = None, resRank = Some (trRank r),
      vectorScore = None, textScore = Some (trRank r),
      combinedScore = 0, resMetadata = trMetadata r\<rparr>"

definition findByVector :: "nat \<Rightarrow> vectorQuery \<Rightarrow> jsnum list \<Rightarrow> nat \<Rightarrow> jsstring option \<Rightarrow> error + RagResult list" where
  "findByVector dims vq embedding topK screen =
     (if \<not> list_all isFinite embedding then Inl InvalidEmbedding
      else if length embedding \<noteq> dims then Inl (DimensionMismatch dims (length embedding))
      else Inr (map vectorHit (vq embedding topK (screenFilter screen))))"

definition findByText :: "textQuery \<Rightarrow> jsstring \<Rightarrow> nat \<Rightarrow> jsstring option \<Rightarrow> RagResult list" where
  "findByText tq query topK screen = map textHit (tq query topK (screenFilter screen))"

text \<open>
  \<open>Map.prototype.set\<close> on a map kept in insertion order: an existing key keeps its place.
\<close>

fun mapSet :: "('k \<times> 'v) list \<Rightarrow> 'k \<Rightarrow> 'v \<Rightarrow> ('k \<times> 'v) list" where
  "mapSet [] k v = [(k, v)]"
| "mapSet (p # ps) k v = (if fst p = k then (k, v) # ps else p # mapSet ps k v)"

definition RRF_CONSTANT :: real where
  "RRF_CONSTANT = 60"

definition rrfScore :: "nat \<Rightarrow> real" where
  "rrfScore index = 1 / (RRF_CONSTANT + (real index + 1))"

text \<open>The two \<open>forEach\<close> loops; \<open>i\<close> is the index of the head of the remaining list.\<close>

fun mergeVector :: "nat \<Rightarrow> RagResult list \<Rightarrow> (jsstring \<times> RagResult) list \<Rightarrow> (jsstring \<times> RagResult) list" where
  "mergeVector i [] merged = merged"
| "mergeVector i (res # rest) merged =
     mergeVector (Suc i) rest (mapSet merged (resId res) (res\<lparr>combinedScore := rrfScore i\<rparr>))"

fun mergeText :: "nat \<Rightarrow> RagResult list \<Rightarrow> (jsstring \<times> RagResult) list \<Rightarrow> (jsstring \<times> RagResult) list" where
  "mergeText i [] merged = merged"
| "mergeText i (res # rest) merged =
     mergeText (Suc i) rest
       (case map_of merged (resId res) of
          Some existing \<Rightarrow>
            mapSet merged (resId res)
              (existing\<lparr>textScore := textScore res,
                        combinedScore := combinedScore existing + rrfScore i\<rparr>)
        | None \<Rightarrow> mapSet merged (resId res) (res\<lparr>combinedScore := rrfScore i\<rparr>))"

text \<open>
  The fusion of \<open>hybridSearch\<close>: both lists merged, the values sorted by the comparator
  \<open>b.combinedScore - a.combinedScore\<close> (a stable sort), the first \<open>topK\<close> kept.
\<close>

definition fuse :: "RagResult list \<Rightarrow> RagResult list \<Rightarrow> (jsstring \<times> RagResult) list" where
  "fuse vectorResults textResults = mergeText 0 textResults (mergeVector 0 vectorResults [])"

definition rankedValues :: "(jsstring \<times> RagResult) list \<Rightarrow> RagResult list" where
  "rankedValues merged = sort_key (\<lambda>r. - combinedScore r) (map snd merged)"

definition hybridSearch :: "nat \<Rightarrow> vectorQuery \<Rightarrow> textQuery \<Rightarrow> jsstring \<Rightarrow> jsnum list \<Rightarrow> nat \<Rightarrow> jsstring option \<Rightarrow> error + RagResult list" where
  "hybridSearch dims vq tq query embedding topK screen =
     (case findByVector dims vq embedding topK screen of
        Inl e \<Rightarrow> Inl e
      | Inr vectorResults \<Rightarrow>
          Inr (take topK (rankedValues (fuse vectorResults (findByText tq query topK screen)))))"

text \<open>
  The fusion rule in the words of the specification, to compare the code with: a list
  contributes \<open>1 / (60 + rank)\<close> to a document at 1-based \<open>rank\<close> in it, and nothing to a
  document it does not hold.
\<close>

fun rankIn :: "'a list \<Rightarrow> 'a \<Rightarrow> nat" where
  "rankIn [] x = 0"
| "rankIn (y # ys) x = (if x = y then 1 else 1 + rankIn ys x)"

definition contribution :: "jsstring list \<Rightarrow> jsstring \<Rightarrow> real" where
  "contribution ids d = (if d \<in> set ids then 1 / (60 + real (rankIn ids d)) else 0)"

section \<open>Chunking of the extractor (services/GraphExtractor.ts)\<close>

text \<open>The class \<open>\s\<close> of a regular expression, on code units.\<close>

definition isSpace :: "nat \<Rightarrow> bool" where
  "isSpace c = (c \<in> {9, 10, 11, 12, 13, 32, 160, 5760, 8232, 8233, 8239, 8287, 12288, 65279}
                \<or> (8192 \<le> c \<and> c \<le> 8202))"

text \<open>The class \<open>[.!?\<dots>]\<close> of sentence terminators: \<open>. ! ?\<close> and their full-width forms
  U+3002, U+FF01, U+FF1F.\<close>

definition isTerminator :: "nat \<Rightarrow> bool" where
  "isTerminator c = (c \<in> {46, 33, 63, 12290, 65281, 65311})"

text \<open>
  \<open>text.split(/\n\n+/)\<close>: a separator is a maximal run of two or more line feeds; \<open>cur\<close>
  collects the piece being read.
\<close>

function paragraphSplit :: "jsstring \<Rightarrow> jsstring \<Rightarrow> jsstring list" where
  "paragraphSplit cur [] = [cur]"
| "paragraphSplit cur [c] = [cur @ [c]]"
| "paragraphSplit cur (c # d # cs) =
     (if c = 10 \<and> d = 10 then cur # paragraphSplit [] (dropWhile (\<lambda>x. x = 10) cs)
      else paragraphSplit (cur @ [c]) (d # cs))"
  by pat_completeness auto
termination
  by (relation "measure (\<lambda>(cur, s). length s)")
     (auto simp: le_imp_less_Suc [OF le_SucI [OF length_dropWhile_le]])

text \<open>
  \<open>paragraph.split(/(?<=[.!?\<dots>])\s+/)\<close>: a separator is a maximal run of white space that
  follows a terminator; \<open>afterTerminator\<close> tells whether the unit just read is one.
\<close>

function sentenceSplit :: "bool \<Rightarrow> jsstring \<Rightarrow> jsstring \<Rightarrow> jsstring list" where
  "sentenceSplit afterTerminator cur [] = [cur]"
| "sentenceSplit afterTerminator cur (c # cs) =
     (if afterTerminator \<and> isSpace c then cur # sentenceSplit False [] (dropWhile isSpace cs)
      else sentenceSplit (isTerminator c) (cur @ [c]) cs)"
  by pat_completeness auto
termination
  by (relation "measure (\<lambda>(b, cur, s). length s)")
     (auto simp: le_imp_less_Suc [OF length_dropWhile_le])

text \<open>
  \<open>for (let i = 0; i < sentence.length; i += chunkSize) parts.push(sentence.slice(i, i + chunkSize))\<close>.
  With \<open>chunkSize = 0\<close> the loop does not advance; not returning is the value \<open>None\<close>.
\<close>

partial_function (option) hardSlices :: "nat \<Rightarrow> jsstring \<Rightarrow> nat \<Rightarrow> jsstring list \<Rightarrow> jsstring list option" where
  "hardSlices chunkSize sentence i parts =
     (if i < length sentence
      then hardSlices chunkSize sentence (i + chunkSize) (parts @ [take chunkSize (drop i sentence)])
      else Some parts)"

text \<open>The loop of \<open>splitLargeParagraph\<close> over the sentences, with its two variables.\<close>

fun sentenceLoop :: "nat \<Rightarrow> jsstring list \<Rightarrow> jsstring list \<Rightarrow> jsstring \<Rightarrow> jsstring list option" where
  "sentenceLoop chunkSize [] parts current =
     Some (if length current > 0 then parts @ [current] else parts)"
| "sentenceLoop chunkSize (sentence # rest) parts current =
     (if length sentence > chunkSize then
        (case hardSlices chunkSize sentence 0
                (if length current > 0 then parts @ [current] else parts) of
           None \<Rightarrow> None
         | Some parts' \<Rightarrow> sentenceLoop chunkSize rest parts' [])
      else if length current + length sentence + 1 > chunkSize \<and> length current > 0
        then sentenceLoop chunkSize rest (parts @ [current]) sentence
      else sentenceLoop chunkSize rest parts
             (if current \<noteq> [] then current @ [32] @ sentence else sentence))"

definition splitLargeParagraph :: "jsstring \<Rightarrow> nat \<Rightarrow> jsstring list option" where
  "splitLargeParagraph paragraph chunkSize =
     sentenceLoop chunkSize (sentenceSplit False [] paragraph) [] []"

text \<open>The loop of \<open>splitIntoChunks\<close> over the paragraphs.\<close>

fun paragraphLoop :: "nat \<Rightarrow> jsstring list \<Rightarrow> jsstring list \<Rightarrow> jsstring \<Rightarrow> jsstring list option" where
  "paragraphLoop chunkSize [] chunks current =
     Some (if current \<noteq> [] then chunks @ [current] else chunks)"
| "paragraphLoop chunkSize (para # rest) chunks current =
     (if length para > chunkSize then
        (case splitLargeParagraph para chunkSize of
           None \<Rightarrow> None
         | Some parts \<Rightarrow>
             paragraphLoop chunkSize rest
               ((if length current > 0 then chunks @ [current] else chunks) @ parts) [])
      else if length current + length para + 2 > chunkSize \<and> length current > 0
        then paragraphLoop chunkSize rest (chunks @ [current]) para
      else paragraphLoop chunkSize rest chunks
             (if current \<noteq> [] then current @ [10, 10] @ para else para))"

definition splitIntoChunks :: "jsstring \<Rightarrow> nat \<Rightarrow> jsstring list option" where
  "splitIntoChunks text chunkSize =
     (if length text \<le> chunkSize then Some [text]
      else paragraphLoop chunkSize (paragraphSplit [] text) [] [])"

text \<open>What is left of a text when its white space is deleted.\<close>

definition nonSpace :: "jsstring \<Rightarrow> jsstring" where
  "nonSpace s = filter (\<lambda>c. \<not> isSpace c) s"

section \<open>Stable serialisation (ChatbotService.stableStringify)\<close>

subsection \<open>Own properties of an object\<close>

text \<open>
  An own property key that is an array index: the canonical decimal form of an integer
  below \<open>2^32 - 1\<close>. The own keys of an ordinary object are enumerated with the array
  indices first, in ascending numeric order, then the other keys in the order of their
  creation.
\<close>

definition isDigit :: "nat \<Rightarrow> bool" where
  "isDigit c = (48 \<le> c \<and> c \<le> 57)"

definition digitsValue :: "jsstring \<Rightarrow> nat" where
  "digitsValue s = foldl (\<lambda>acc c. acc * 10 + (c - 48)) 0 s"

definition isArrayIndex :: "jsstring \<Rightarrow> bool" where
  "isArrayIndex s = (s \<noteq> [] \<and> list_all isDigit s \<and> (length s = 1 \<or> take 1 s \<noteq> [48])
                     \<and> digitsValue s < 4294967295)"

fun insertIndexKey :: "(jsstring \<times> 'v) list \<Rightarrow> jsstring \<Rightarrow> 'v \<Rightarrow> (jsstring \<times> 'v) list" where
  "insertIndexKey [] k v = [(k, v)]"
| "insertIndexKey (p # ps) k v =
     (if isArrayIndex (fst p) \<and> digitsValue (fst p) < digitsValue k
      then p # insertIndexKey ps k v
      else (k, v) # p # ps)"

text \<open>
  A property defined on an ordinary object: a key the object has keeps its place; a new
  array index is put among the indices; any other new key comes last.
\<close>

definition defineProp :: "(jsstring \<times> 'v) list \<Rightarrow> jsstring \<Rightarrow> 'v \<Rightarrow> (jsstring \<times> 'v) list" where
  "defineProp r k v =
     (if k \<in> fst ` set r then map (\<lambda>p. if fst p = k then (k, v) else p) r
      else if isArrayIndex k then insertIndexKey r k v
      else r @ [(k, v)])"

text \<open>
  \<open>r[k] = v\<close> on an object that started as \<open>{}\<close>: the key \<open>__proto__\<close> reaches the
  accessor of \<open>Object.prototype\<close> and creates no own property; any other key is defined.
\<close>

definition setProp :: "(jsstring \<times> 'v) list \<Rightarrow> jsstring \<Rightarrow> 'v \<Rightarrow> (jsstring \<times> 'v) list" where
  "setProp r k v = (if k = str ''__proto__'' then r else defineProp r k v)"

text \<open>
  The object spread \<open>{...a, ...b}\<close>: the own properties of \<open>a\<close>, then those of \<open>b\<close>, each
  defined on the new object; \<open>undefined\<close> spreads nothing.
\<close>

definition spread :: "(jsstring \<times> 'v) list option \<Rightarrow> (jsstring \<times> 'v) list option \<Rightarrow> (jsstring \<times> 'v) list" where
  "spread a b =
     foldl (\<lambda>r p. defineProp r (fst p) (snd p))
       (foldl (\<lambda>r p. defineProp r (fst p) (snd p)) [] (case a of Some x \<Rightarrow> x | None \<Rightarrow> []))
       (case b of Some y \<Rightarrow> y | None \<Rightarrow> [])"

text \<open>\<open>v[k]\<close> for an own key \<open>k\<close>; a key the object lacks reads as \<open>undefined\<close>.\<close>

definition getProp :: "(jsstring \<times> jsval) list \<Rightarrow> jsstring \<Rightarrow> jsval" where
  "getProp kvs k = (case map_of kvs k of Some x \<Rightarrow> x | None \<Rightarrow> JUndefined)"

text \<open>
  The object the replacer returns for an object:
  \<open>Object.keys(v).sort().reduce((r, k) => { r[k] = v[k]; return r }, {})\<close>.
  \<open>sort\<close> without a comparator orders strings by their code units.
\<close>

definition sortedCopy :: "(jsstring \<times> jsval) list \<Rightarrow> (jsstring \<times> jsval) list" where
  "sortedCopy kvs = foldl (\<lambda>r k. setProp r k (getProp kvs k)) [] (sort (map fst kvs))"

subsection \<open>JSON.stringify with the replacer\<close>

definition hex4 :: "nat \<Rightarrow> jsstring" where
  "hex4 c = map hexDigit [(c div 4096) mod 16, (c div 256) mod 16, (c div 16) mod 16, c mod 16]"

text \<open>
  \<open>QuoteJSONString\<close>: the short escapes for backspace, tab, line feed, form feed, carriage
  return, the quote and the backslash; \<open>\uXXXX\<close> for the other control characters and for
  a surrogate that is not part of a pair.
\<close>

definition escapeUnit :: "nat \<Rightarrow> jsstring" where
  "escapeUnit c =
     (if c = 8 then [92, 98] else if c = 9 then [92, 116] else if c = 10 then [92, 110]
      else if c = 12 then [92, 102] else if c = 13 then [92, 114]
      else if c = 34 then [92, 34] else if c = 92 then [92, 92]
      else if c < 32 \<or> (55296 \<le> c \<and> c < 57344) then [92, 117] @ hex4 c
      else [c])"

fun quoteUnits :: "jsstring \<Rightarrow> jsstring" where
  "quoteUnits [] = []"
| "quoteUnits [c] = escapeUnit c"
| "quoteUnits (c # d # cs) =
     (if 55296 \<le> c \<and> c < 56320 \<and> 56320 \<le> d \<and> d < 57344 then [c, d] @ quoteUnits cs
      else escapeUnit c @ quoteUnits (d # cs))"

definition quoteJSON :: "jsstring \<Rightarrow> jsstring" where
  "quoteJSON s = [34] @ quoteUnits s @ [34]"

text \<open>What an array element and an object member contribute to the output.\<close>

definition element :: "jsstring option \<Rightarrow> jsstring" where
  "element s = (case s of None \<Rightarrow> str ''null'' | Some t \<Rightarrow> t)"

definition member :: "jsstring \<Rightarrow> jsstring option \<Rightarrow> jsstring list" where
  "member k s = (case s of None \<Rightarrow> [] | Some t \<Rightarrow> [quoteJSON k @ [58] @ t])"

lemma sortedCopy_fold_subset:
  "set ks \<subseteq> fst ` set kvs \<Longrightarrow> set r \<subseteq> set kvs \<Longrightarrow>
   set (foldl (\<lambda>r k. setProp r k (getProp kvs k)) r ks) \<subseteq> set kvs"
proof (induction ks arbitrary: r)
  case Nil
  then show ?case by simp
next
  case (Cons k ks)
  from Cons.prems obtain x where "map_of kvs k = Some x"
    by (cases "map_of kvs k") (auto simp: map_of_eq_None_iff)
  then have kx: "(k, getProp kvs k) \<in> set kvs"
    by (auto simp: getProp_def dest: map_of_SomeD)
  have ins: "set (insertIndexKey r' k v) = insert (k, v) (set r')" for r' :: "(jsstring \<times> jsval) list" and v
    by (induction r') auto
  have "set (setProp r k (getProp kvs k)) \<subseteq> insert (k, getProp kvs k) (set r)"
    by (auto simp: setProp_def defineProp_def ins split: if_splits)
  with kx Cons.prems have "set (setProp r k (getProp kvs k)) \<subseteq> set kvs" by auto
  with Cons.IH [of "setProp r k (getProp kvs k)"] Cons.prems show ?case by simp
qed

lemma sortedCopy_subset: "set (sortedCopy kvs) \<subseteq> set kvs"
  unfolding sortedCopy_def by (rule sortedCopy_fold_subset) simp_all

lemma size_member_less:
  "p \<in> set kvs \<Longrightarrow> size (snd p) < Suc (size_list (size_prod (\<lambda>_. 0) size) kvs)"
  by (induction kvs) (auto simp: less_Suc_eq_le)

text \<open>
  \<open>SerializeJSONProperty\<close> with the replacer of \<open>stableStringify\<close>: the replacer is applied
  to the value, then the value is written; the members of an object and the elements of
  an array go through the same function. The replacer turns a value \<open>v\<close> with
  \<open>v instanceof Object && !Array.isArray(v)\<close> into its sorted copy and returns anything
  else as it is: an object that does not inherit from \<open>Object.prototype\<close> is written with
  its members in their own order. \<open>None\<close> is the result \<open>undefined\<close>. \<open>numberToString\<close> is
  the runtime's \<open>Number::toString\<close> on finite numbers.
\<close>

function serializeJSONProperty :: "(real \<Rightarrow> jsstring) \<Rightarrow> jsval \<Rightarrow> jsstring option" where
  "serializeJSONProperty numberToString JUndefined = None"
| "serializeJSONProperty numberToString JNull = Some (str ''null'')"
| "serializeJSONProperty numberToString (JBool b) = Some (if b then str ''true'' else str ''false'')"
| "serializeJSONProperty numberToString (JNum x) =
     Some (case x of Finite r \<Rightarrow> numberToString r | _ \<Rightarrow> str ''null'')"
| "serializeJSONProperty numberToString (JStr s) = Some (quoteJSON s)"
| "serializeJSONProperty numberToString (JArr xs) =
     Some ([91] @ join [44] (map (\<lambda>x. element (serializeJSONProperty numberToString x)) xs) @ [93])"
| "serializeJSONProperty numberToString (JObj kvs) =
     Some ([123] @
           join [44] (concat (map (\<lambda>p. member (fst p) (serializeJSONProperty numberToString (snd p)))
                                  (sortedCopy kvs))) @
           [125])"
| "serializeJSONProperty numberToString (JBare kvs) =
     Some ([123] @
           join [44] (concat (map (\<lambda>p. member (fst p) (serializeJSONProperty numberToString (snd p)))
                                  kvs)) @
           [125])"
  by pat_completeness auto
termination
proof (relation "measure (\<lambda>(n, v). size v)", goal_cases)
  case 1
  then show ?case by simp
next
  case (2 numberToString xs x)
  then show ?case by (induction xs) (auto simp: less_Suc_eq_le)
next
  case (3 numberToString kvs p)
  then have "p \<in> set kvs" using sortedCopy_subset by blast
  then show ?case using size_member_less [of p kvs] by simp
next
  case (4 numberToString kvs p)
  then show ?case using size_member_less [of p kvs] by simp
qed

definition stableStringify :: "(real \<Rightarrow> jsstring) \<Rightarrow> jsval \<Rightarrow> jsstring option" where
  "stableStringify numberToString obj = serializeJSONProperty numberToString obj"

text \<open>
  Two values of which one is the other with the keys of some objects that inherit from
  \<open>Object.prototype\<close> permuted: the members of such an object written in another order,
  inside a member of an object of either kind or an element of an array, any number of
  times.
\<close>

inductive keysPermuted :: "jsval \<Rightarrow> jsval \<Rightarrow> bool" where
  same: "keysPermuted v v"
| reorder: "distinct (map fst kvs) \<Longrightarrow> mset kvs' = mset kvs \<Longrightarrow> keysPermuted (JObj kvs) (JObj kvs')"
| inMember: "keysPermuted v v' \<Longrightarrow>
    keysPermuted (JObj (before @ (k, v) # after)) (JObj (before @ (k, v') # after))"
| inBareMember: "keysPermuted v v' \<Longrightarrow>
    keysPermuted (JBare (before @ (k, v) # after)) (JBare (before @ (k, v') # after))"
| inElement: "keysPermuted v v' \<Longrightarrow>
    keysPermuted (JArr (before @ v # after)) (JArr (before @ v' # after))"
| chain: "keysPermuted u v \<Longrightarrow> keysPermuted v w \<Longrightarrow> keysPermuted u w"

subsection \<open>The cache key\<close>

definition CACHE_VERSION :: jsstring where
  "CACHE_VERSION = str ''v2''"

text \<open>
  \<open>createHash("sha256").update(this.stableStringify({cacheVersion, messages, context, plan})).digest("hex")\<close>;
  \<open>update\<close> throws a \<open>TypeError\<close> when it is not given a string.
\<close>

definition cacheKeyObject :: "jsval \<Rightarrow> jsval \<Rightarrow> jsval \<Rightarrow> jsval" where
  "cacheKeyObject messages ctx plan =
     JObj [(str ''cacheVersion'', JStr CACHE_VERSION), (str ''messages'', messages),
           (str ''context'', ctx), (str ''plan'', plan)]"

definition cacheKey :: "(real \<Rightarrow> jsstring) \<Rightarrow> jsval \<Rightarrow> jsval \<Rightarrow> jsval \<Rightarrow> error + jsstring" where
  "cacheKey numberToString messages ctx plan =
     (case stableStringify numberToString (cacheKeyObject messages ctx plan) of
        None \<Rightarrow> Inl TypeError
      | Some s \<Rightarrow> Inr (sha256_hex s))"

section \<open>Providers (providers/types.ts, types/llm.ts)\<close>

datatype ChatRole = System | User | Assistant

record ChatMessage =
  role :: ChatRole
  content :: jsstring

record LlmOptions =
  temperature :: "real option"
  maxTokens :: "nat option"

record Usage =
  promptTokens :: nat
  completionTokens :: nat
  totalTokens :: nat

record LlmResponse =
  llmId :: jsstring
  llmContent :: jsstring
  llmUsage :: "Usage option"

text \<open>
  The two capabilities the core asks of its providers. A call that fails is the value
  \<open>Inl\<close> of an error; what a provider answers is a parameter of the model.
\<close>

type_synonym chatCompletion = "ChatMessage list \<Rightarrow> LlmOptions \<Rightarrow> error + LlmResponse"
type_synonym createEmbedding = "jsstring \<Rightarrow> error + jsnum list"

section \<open>Extraction (services/GraphExtractor.ts)\<close>

record ExtractedEntity =
  entName :: jsstring
  entType :: jsstring
  entProperties :: "(jsstring \<times> jsval) list option"

record ExtractedRelation =
  relSource :: jsstring
  relTarget :: jsstring
  relationType :: jsstring
  relWeight :: "jsnum option"

record ExtractionResult =
  entities :: "ExtractedEntity list"
  relations :: "ExtractedRelation list"

definition EXTRACTION_PROMPT :: jsstring where
  \<open>EXTRACTION_PROMPT =
     str ''You are a knowledge graph extraction engine.'' @ [10] @
     str ''Given the text below, extract all entities and relationships.'' @ [10] @
     [] @ [10] @
     str ''Output ONLY valid JSON in this exact format:'' @ [10] @
     str ''{'' @ [10] @
     str ''  "entities": ['' @ [10] @
     str ''    { "name": "Entity Name", "type": "concept|person|drug|disease|organization|event|location|other", "properties": {} }'' @ [10] @
     str ''  ],'' @ [10] @
     str ''  "relations": ['' @ [10] @
     str ''    { "source": "Entity A", "target": "Entity B", "relationType": "is_a|causes|treats|part_of|related_to|contains|influences|precedes|follows", "weight": 1.0 }'' @ [10] @
     str ''  ]'' @ [10] @
     str ''}'' @ [10] @
     [] @ [10] @
     str ''Rules:'' @ [10] @
     str ''- Extract ALL meaningful entities (nouns, concepts, people, organizations, etc.)'' @ [10] @
     str ''- Extract ALL relationships between entities'' @ [10] @
     str ''- Use consistent entity names (normalize casing)'' @ [10] @
     str ''- relationType should describe the relationship FROM source TO target'' @ [10] @
     str ''- weight: 0.0-1.0 indicating confidence/strength of the relationship'' @ [10] @
     str ''- Output ONLY the JSON, no markdown or explanation''\<close>

definition emptyExtraction :: ExtractionResult where
  "emptyExtraction = \<lparr>entities = [], relations = []\<rparr>"

text \<open>
  \<open>extractFromChunk\<close>. \<open>parseExtraction\<close> stands for what the \<open>try\<close> block does with the
  answer of the model: the first \<open>{\<dots>}\<close> of the text, \<open>JSON.parse\<close>, the validation against
  \<open>ExtractionResultSchema\<close>; it is \<open>None\<close> when there is no match, when parsing throws or
  when the validation fails. The call of the model is outside the \<open>try\<close> block.
\<close>

definition extractFromChunk :: "chatCompletion \<Rightarrow> (jsstring \<Rightarrow> ExtractionResult option) \<Rightarrow> jsstring \<Rightarrow> error + ExtractionResult" where
  "extractFromChunk llm parseExtraction chunk =
     (case llm [\<lparr>role = System, content = EXTRACTION_PROMPT\<rparr>, \<lparr>role = User, content = chunk\<rparr>]
               \<lparr>temperature = Some 0, maxTokens = None\<rparr> of
        Inl e \<Rightarrow> Inl e
      | Inr answer \<Rightarrow>
          Inr (case parseExtraction (llmContent answer) of
                 None \<Rightarrow> emptyExtraction
               | Some validated \<Rightarrow> validated))"

text \<open>The loop over the chunks, one call at a time; the first failing call ends it.\<close>

fun extractChunks :: "chatCompletion \<Rightarrow> (jsstring \<Rightarrow> ExtractionResult option) \<Rightarrow> jsstring list \<Rightarrow>
    ExtractedEntity list \<Rightarrow> ExtractedRelation list \<Rightarrow> error + ExtractedEntity list \<times> ExtractedRelation list" where
  "extractChunks llm parseExtraction [] allEntities allRelations = Inr (allEntities, allRelations)"
| "extractChunks llm parseExtraction (chunk # rest) allEntities allRelations =
     (case extractFromChunk llm parseExtraction chunk of
        Inl e \<Rightarrow> Inl e
      | Inr result \<Rightarrow>
          extractChunks llm parseExtraction rest
            (allEntities @ entities result) (allRelations @ relations result))"

text \<open>
  The entities by \<open>name.toLowerCase()::type\<close>, in a map kept in insertion order: the first
  entity of a key stays, a later one adds its properties to it.
\<close>

definition entityKey :: "caseMapping \<Rightarrow> ExtractedEntity \<Rightarrow> jsstring" where
  "entityKey unicodeLower e = toLowerCase unicodeLower (entName e) @ str ''::'' @ entType e"

fun mergeEntities :: "caseMapping \<Rightarrow> ExtractedEntity list \<Rightarrow> (jsstring \<times> ExtractedEntity) list \<Rightarrow>
    (jsstring \<times> ExtractedEntity) list" where
  "mergeEntities unicodeLower [] entityMap = entityMap"
| "mergeEntities unicodeLower (entity # rest) entityMap =
     mergeEntities unicodeLower rest
       (case map_of entityMap (entityKey unicodeLower entity) of
          None \<Rightarrow> mapSet entityMap (entityKey unicodeLower entity) entity
        | Some existing \<Rightarrow>
            mapSet entityMap (entityKey unicodeLower entity)
              (existing\<lparr>entProperties := Some (spread (entProperties existing) (entProperties entity))\<rparr>))"

definition relationKey :: "caseMapping \<Rightarrow> ExtractedRelation \<Rightarrow> jsstring" where
  "relationKey unicodeLower r =
     toLowerCase unicodeLower (relSource r) @ str ''::'' @ toLowerCase unicodeLower (relTarget r) @
     str ''::'' @ relationType r"

fun uniqueRelations :: "caseMapping \<Rightarrow> ExtractedRelation list \<Rightarrow> jsstring list \<Rightarrow> ExtractedRelation list" where
  "uniqueRelations unicodeLower [] relationSet = []"
| "uniqueRelations unicodeLower (r # rest) relationSet =
     (if relationKey unicodeLower r \<in> set relationSet then uniqueRelations unicodeLower rest relationSet
      else r # uniqueRelations unicodeLower rest (relationKey unicodeLower r # relationSet))"

text \<open>
  \<open>GraphExtractor.extract\<close>. The outer \<open>option\<close> is \<open>None\<close> when the chunking does not
  return.
\<close>

definition GraphExtractor_extract :: "caseMapping \<Rightarrow> chatCompletion \<Rightarrow> (jsstring \<Rightarrow> ExtractionResult option) \<Rightarrow>
    jsstring \<Rightarrow> (error + ExtractionResult) option" where
  "GraphExtractor_extract unicodeLower llm parseExtraction text =
     (case splitIntoChunks text 3000 of
        None \<Rightarrow> None
      | Some chunks \<Rightarrow>
          Some (case extractChunks llm parseExtraction chunks [] [] of
                  Inl e \<Rightarrow> Inl e
                | Inr (allEntities, allRelations) \<Rightarrow>
                    Inr \<lparr>entities = map snd (mergeEntities unicodeLower allEntities []),
                         relations = uniqueRelations unicodeLower allRelations []\<rparr>))"

section \<open>The graph store (repositories/KnowledgeGraphRepository.ts)\<close>

text \<open>
  The tables \<open>knowledge_nodes\<close> and \<open>knowledge_edges\<close>, each keyed by its primary key
  \<open>id\<close>, and the list of the upserts that the database carried out, in order. The edges
  this service writes join nodes it has written in the same call.
\<close>

record NodeRow =
  nodeId :: jsstring
  nodeName :: jsstring
  nodeType :: jsstring
  nodeProperties :: "(jsstring \<times> jsval) list"
  nodeEmbedding :: "jsnum list option"
  nodeCreatedAt :: nat
  nodeUpdatedAt :: nat

record EdgeRow =
  edgeId :: jsstring
  edgeSourceId :: jsstring
  edgeTargetId :: jsstring
  edgeRelationType :: jsstring
  edgeWeight :: jsnum
  edgeProperties :: "(jsstring \<times> jsval) list"
  edgeCreatedAt :: nat

datatype GraphWrite = UpsertNode jsstring | UpsertEdge jsstring

record GraphStore =
  nodeTable :: "jsstring \<rightharpoonup> NodeRow"
  edgeTable :: "jsstring \<rightharpoonup> EdgeRow"
  writes :: "GraphWrite list"

record NodeInput =
  niId :: jsstring
  niName :: jsstring
  niType :: jsstring
  niProperties :: "(jsstring \<times> jsval) list option"
  niEmbedding :: "jsnum list option"

record EdgeInput =
  eiId :: jsstring
  eiSourceId :: jsstring
  eiTargetId :: jsstring
  eiRelationType :: jsstring
  eiWeight :: "jsnum option"
  eiProperties :: "(jsstring \<times> jsval) list option"

text \<open>
  \<open>INSERT \<dots> ON CONFLICT (id) DO UPDATE SET name, type, properties, embedding,
  updated_at = now()\<close>. A field of the \<open>set\<close> object that is \<open>undefined\<close> is left out of the
  statement: a node that is upserted without an embedding keeps the embedding its row
  has. A new row without an embedding has none.
\<close>

definition keep :: "'a option \<Rightarrow> 'a option \<Rightarrow> 'a option" where
  "keep given stored = (case given of None \<Rightarrow> stored | Some x \<Rightarrow> Some x)"

definition upsertNode :: "nat \<Rightarrow> NodeInput \<Rightarrow> GraphStore \<Rightarrow> GraphStore" where
  "upsertNode now node store =
     store\<lparr>nodeTable := (nodeTable store)(niId node \<mapsto>
              (case nodeTable store (niId node) of
                 None \<Rightarrow>
                   \<lparr>nodeId = niId node, nodeName = niName node, nodeType = niType node,
                    nodeProperties = orElse (niProperties node) [],
                    nodeEmbedding = niEmbedding node,
                    nodeCreatedAt = now, nodeUpdatedAt = now\<rparr>
               | Some row \<Rightarrow>
                   row\<lparr>nodeName := niName node, nodeType := niType node,
                       nodeProperties := orElse (niProperties node) [],
                       nodeEmbedding := keep (niEmbedding node) (nodeEmbedding row),
                       nodeUpdatedAt := now\<rparr>)),
           writes := writes store @ [UpsertNode (niId node)]\<rparr>"

text \<open>
  \<open>INSERT \<dots> ON CONFLICT (id) DO UPDATE SET relation_type, weight, properties\<close>. The
  column \<open>weight\<close> is of type \<open>real\<close>, a number of single precision: the database stores
  the number it is given rounded to that precision, or refuses the statement when the
  number is out of the range of the type. That conversion is the database's and is the
  parameter \<open>columnReal\<close>: the number stored, or \<open>None\<close> for a refusal, which changes
  nothing.
\<close>

definition upsertEdge :: "(jsnum \<Rightarrow> jsnum option) \<Rightarrow> nat \<Rightarrow> EdgeInput \<Rightarrow> GraphStore \<Rightarrow> error + GraphStore" where
  "upsertEdge columnReal now edge store =
     (case columnReal (orElse (eiWeight edge) (Finite 1)) of
        None \<Rightarrow> Inl RealOutOfRange
      | Some weight \<Rightarrow>
          Inr (store\<lparr>edgeTable := (edgeTable store)(eiId edge \<mapsto>
                 (case edgeTable store (eiId edge) of
                    None \<Rightarrow>
                      \<lparr>edgeId = eiId edge, edgeSourceId = eiSourceId edge,
                       edgeTargetId = eiTargetId edge, edgeRelationType = eiRelationType edge,
                       edgeWeight = weight,
                       edgeProperties = orElse (eiProperties edge) [],
                       edgeCreatedAt = now\<rparr>
                  | Some row \<Rightarrow>
                      row\<lparr>edgeRelationType := eiRelationType edge,
                          edgeWeight := weight,
                          edgeProperties := orElse (eiProperties edge) []\<rparr>)),
               writes := writes store @ [UpsertEdge (eiId edge)]\<rparr>))"

section \<open>Building the graph (services/KnowledgeGraphService.ts)\<close>

text \<open>
  The service with what it is given and what it runs on: the providers, the expected
  dimension, the case mapping of the runtime on strings that are not ASCII, the conversion
  of the database to the column type \<open>real\<close>, and the time of the database.
\<close>

record GraphService =
  llmProvider :: chatCompletion
  parseExtraction :: "jsstring \<Rightarrow> ExtractionResult option"
  embeddingProvider :: "createEmbedding option"
  expectedEmbeddingDimensions :: nat
  unicodeLower :: caseMapping
  columnReal :: "jsnum \<Rightarrow> jsnum option"
  clock :: nat

record BuildResult =
  nodesCreated :: nat
  edgesCreated :: nat

text \<open>
  One embedding per entity, all asked for before any node is written; a call that fails
  gives \<open>undefined\<close>, and so does every entity when there is no provider.
\<close>

definition embeddingResults :: "GraphService \<Rightarrow> ExtractedEntity list \<Rightarrow> jsnum list option list" where
  "embeddingResults svc ents =
     (case embeddingProvider svc of
        Some create \<Rightarrow>
          map (\<lambda>e. case create (entName e) of Inl err \<Rightarrow> None | Inr v \<Rightarrow> Some v) ents
      | None \<Rightarrow> map (\<lambda>e. None) ents)"

definition nodeInput :: "caseMapping \<Rightarrow> ExtractedEntity \<Rightarrow> jsnum list option \<Rightarrow> NodeInput" where
  "nodeInput lower entity embedding =
     \<lparr>niId = generateNodeId lower (entName entity) (entType entity), niName = entName entity,
      niType = entType entity, niProperties = Some (orElse (entProperties entity) []),
      niEmbedding = embedding\<rparr>"

definition mismatch :: "nat \<Rightarrow> jsnum list option \<Rightarrow> bool" where
  "mismatch dims embedding = (case embedding of Some v \<Rightarrow> length v \<noteq> dims | None \<Rightarrow> False)"

text \<open>
  The loop that registers the nodes: the name is entered in \<open>nameToId\<close>, the embedding is
  checked, the node is upserted and counted. The check of an entity comes after the
  upserts of the entities before it.
\<close>

fun nodeLoop :: "GraphService \<Rightarrow> (ExtractedEntity \<times> jsnum list option) list \<Rightarrow> (jsstring \<rightharpoonup> jsstring) \<Rightarrow>
    nat \<Rightarrow> GraphStore \<Rightarrow> (error + (jsstring \<rightharpoonup> jsstring) \<times> nat) \<times> GraphStore" where
  "nodeLoop svc [] nameToId created store = (Inr (nameToId, created), store)"
| "nodeLoop svc ((entity, embedding) # rest) nameToId created store =
     (if mismatch (expectedEmbeddingDimensions svc) embedding
      then (Inl (DimensionMismatch (expectedEmbeddingDimensions svc) (length (orElse embedding []))),
            store)
      else nodeLoop svc rest
             (nameToId(toLowerCase (unicodeLower svc) (entName entity) \<mapsto>
                generateNodeId (unicodeLower svc) (entName entity) (entType entity)))
             (Suc created)
             (upsertNode (clock svc) (nodeInput (unicodeLower svc) entity embedding) store))"

text \<open>
  The loop that registers the edges: a relation with an end that \<open>nameToId\<close> does not
  know is passed over; an upsert that the database refuses ends the loop with its error.
\<close>

definition edgeInput :: "jsstring \<Rightarrow> jsstring \<Rightarrow> ExtractedRelation \<Rightarrow> EdgeInput" where
  "edgeInput sourceId targetId relation =
     \<lparr>eiId = generateEdgeId sourceId targetId (relationType relation), eiSourceId = sourceId,
      eiTargetId = targetId, eiRelationType = relationType relation,
      eiWeight = Some (orElse (relWeight relation) (Finite 1)), eiProperties = None\<rparr>"

fun edgeLoop :: "GraphService \<Rightarrow> ExtractedRelation list \<Rightarrow> (jsstring \<rightharpoonup> jsstring) \<Rightarrow> nat \<Rightarrow> GraphStore \<Rightarrow>
    (error + nat) \<times> GraphStore" where
  "edgeLoop svc [] nameToId created store = (Inr created, store)"
| "edgeLoop svc (relation # rest) nameToId created store =
     (case (nameToId (toLowerCase (unicodeLower svc) (relSource relation)),
            nameToId (toLowerCase (unicodeLower svc) (relTarget relation))) of
        (Some sourceId, Some targetId) \<Rightarrow>
          (case upsertEdge (columnReal svc) (clock svc) (edgeInput sourceId targetId relation) store of
             Inl e \<Rightarrow> (Inl e, store)
           | Inr store' \<Rightarrow> edgeLoop svc rest nameToId (Suc created) store')
      | _ \<Rightarrow> edgeLoop svc rest nameToId created store)"

text \<open>The body of \<open>buildGraphFromDocument\<close> once the extraction is there.\<close>

definition buildGraph :: "GraphService \<Rightarrow> ExtractionResult \<Rightarrow> GraphStore \<Rightarrow> (error + BuildResult) \<times> GraphStore" where
  "buildGraph svc extraction store =
     (case nodeLoop svc (zip (entities extraction) (embeddingResults svc (entities extraction)))
             Map.empty 0 store of
        (Inl e, store') \<Rightarrow> (Inl e, store')
      | (Inr (nameToId, nodes), store') \<Rightarrow>
          (case edgeLoop svc (relations extraction) nameToId 0 store' of
             (Inl e, store'') \<Rightarrow> (Inl e, store'')
           | (Inr edges, store'') \<Rightarrow> (Inr \<lparr>nodesCreated = nodes, edgesCreated = edges\<rparr>, store'')))"

definition buildGraphFromDocument :: "GraphService \<Rightarrow> jsstring \<Rightarrow> GraphStore \<Rightarrow> ((error + BuildResult) \<times> GraphStore) option" where
  "buildGraphFromDocument svc text store =
     (case GraphExtractor_extract (unicodeLower svc) (llmProvider svc) (parseExtraction svc) text of
        None \<Rightarrow> None
      | Some (Inl e) \<Rightarrow> Some (Inl e, store)
      | Some (Inr extraction) \<Rightarrow> Some (buildGraph svc extraction store))"

section \<open>The orchestrator (services/ChatbotService.ts)\<close>









text \<open>
  The collaborators of the orchestrator. \<open>parsePlan\<close> stands for what the \<open>try\<close> block of
  \<open>analyzeRequest\<close> does with the answer of the model (the first \<open>{\<dots>}\<close>, \<open>JSON.parse\<close>, the
  validation against \<open>SearchPlanSchema\<close>) and is \<open>None\<close> when any of it fails;
  \<open>graphContext\<close> stands for \<open>KnowledgeGraphService.getContextForEntities\<close>.
\<close>

record ChatbotService =
  chatLlm :: chatCompletion
  parsePlan :: "jsstring \<Rightarrow> SearchPlan option"
  chatEmbedding :: createEmbedding
  ragDimensions :: nat
  ragVectorQuery :: vectorQuery
  ragTextQuery :: textQuery
  graphContext :: "jsstring list \<Rightarrow> error + jsstring option"
  numberToString :: "real \<Rightarrow> jsstring"
  serverTime :: nat






















section \<open>Ingestion (core/RagEngine.ts)\<close>

text \<open>
  \<open>String.prototype.lastIndexOf(searchString, position)\<close>: the greatest index, not above
  \<open>position\<close>, at which \<open>searchString\<close> occurs; \<open>-1\<close> when there is none.
\<close>

definition occursAt :: "jsstring \<Rightarrow> jsstring \<Rightarrow> nat \<Rightarrow> bool" where
  "occursAt s pat k = (take (length pat) (drop k s) = pat)"

fun lastOccurrenceFrom :: "jsstring \<Rightarrow> jsstring \<Rightarrow> nat \<Rightarrow> int" where
  "lastOccurrenceFrom s pat 0 = (if occursAt s pat 0 then 0 else - 1)"
| "lastOccurrenceFrom s pat (Suc k) =
     (if occursAt s pat (Suc k) then int (Suc k) else lastOccurrenceFrom s pat k)"

definition stringLastIndexOf :: "jsstring \<Rightarrow> jsstring \<Rightarrow> nat \<Rightarrow> int" where
  "stringLastIndexOf s pat position = lastOccurrenceFrom s pat (min position (length s))"

text \<open>
  \<open>Array.prototype.lastIndexOf(searchElement, fromIndex)\<close>: the greatest index of the
  array, not above \<open>fromIndex\<close>, whose element is \<open>searchElement\<close>; \<open>-1\<close> when there is none.
\<close>

fun lastElementFrom :: "'a list \<Rightarrow> 'a \<Rightarrow> nat \<Rightarrow> int" where
  "lastElementFrom xs x 0 = (if xs ! 0 = x then 0 else - 1)"
| "lastElementFrom xs x (Suc k) = (if xs ! Suc k = x then int (Suc k) else lastElementFrom xs x k)"

definition arrayLastIndexOf :: "'a list \<Rightarrow> 'a \<Rightarrow> nat \<Rightarrow> int" where
  "arrayLastIndexOf xs x fromIndex =
     (if xs = [] then - 1 else lastElementFrom xs x (min fromIndex (length xs - 1)))"

text \<open>
  \<open>content.match(/[\<dots>\n]/g)\<close>, the class being the ideographic full stop U+3002 and the
  line feed: the array of the matches, each a string of one code unit, or \<open>null\<close> when
  there is no match.
\<close>

definition boundaryMatches :: "jsstring \<Rightarrow> jsstring list option" where
  "boundaryMatches s =
     (case filter (\<lambda>c. c = 12290 \<or> c = 10) s of
        [] \<Rightarrow> None
      | c # cs \<Rightarrow> Some (map (\<lambda>u. [u]) (c # cs)))"

definition MAX_EMBEDDING_CHARS :: nat where
  "MAX_EMBEDDING_CHARS = 6000"

text \<open>
  The text that is embedded, as \<open>ingestDocument\<close> computes it. \<open>lastSentence\<close> is the value
  of \<open>content.match(/[\<dots>\n]/g)?.lastIndexOf("\<dots>", MAX_EMBEDDING_CHARS) ?? -1\<close>: an index
  into the array of matches.
\<close>

definition lastParagraphOf :: "jsstring \<Rightarrow> int" where
  "lastParagraphOf s = stringLastIndexOf s [10, 10] MAX_EMBEDDING_CHARS"

definition lastSentenceOf :: "jsstring \<Rightarrow> int" where
  "lastSentenceOf s =
     (case boundaryMatches s of
        None \<Rightarrow> - 1
      | Some ms \<Rightarrow> arrayLastIndexOf ms [12290] MAX_EMBEDDING_CHARS)"

definition embeddingInput :: "jsstring \<Rightarrow> jsstring" where
  "embeddingInput s =
     (if length s > MAX_EMBEDDING_CHARS then
        (if lastParagraphOf s > int MAX_EMBEDDING_CHARS div 2
         then take (nat (lastParagraphOf s)) s
         else if lastSentenceOf s > int MAX_EMBEDDING_CHARS div 2
           then take (nat (lastSentenceOf s + 1)) s
           else take MAX_EMBEDDING_CHARS s)
      else s)"

text \<open>The table \<open>rag_documents\<close>, keyed by its primary key; \<open>tsv\<close> is kept as the text it
  indexes.\<close>

record DocRow =
  docId :: jsstring
  docContent :: jsstring
  docPath :: "jsstring option"
  docMetadata :: "(jsstring \<times> jsval) list option"
  docScreen :: "jsstring option"
  docDomain :: "jsstring option"
  docEmbedding :: "jsnum list option"
  docTsvOf :: jsstring
  docCreatedAt :: nat
  docUpdatedAt :: nat

record DocInput =
  diId :: jsstring
  diContent :: jsstring
  diPath :: "jsstring option"
  diMetadata :: "(jsstring \<times> jsval) list option"
  diScreen :: "jsstring option"
  diDomain :: "jsstring option"
  diEmbedding :: "jsnum list option"

text \<open>
  \<open>RagRepository.upsertDocument\<close>: the check of the dimension, then
  \<open>INSERT \<dots> ON CONFLICT (id) DO UPDATE SET content, path, metadata, screen, domain,
  embedding, tsv, updated_at = now()\<close>. A field of the \<open>set\<close> object that is \<open>undefined\<close>
  is left out of the statement, so the row of a document that is upserted again keeps
  what it has in the columns the new input does not give.
\<close>

definition upsertDocument :: "nat \<Rightarrow> nat \<Rightarrow> DocInput \<Rightarrow> (jsstring \<rightharpoonup> DocRow) \<Rightarrow> error + (jsstring \<rightharpoonup> DocRow)" where
  "upsertDocument dims now doc table =
     (if mismatch dims (diEmbedding doc)
      then Inl (DimensionMismatch dims (length (orElse (diEmbedding doc) [])))
      else Inr (table(diId doc \<mapsto>
             (case table (diId doc) of
                None \<Rightarrow>
                  \<lparr>docId = diId doc, docContent = diContent doc, docPath = diPath doc,
                   docMetadata = diMetadata doc, docScreen = diScreen doc, docDomain = diDomain doc,
                   docEmbedding = diEmbedding doc, docTsvOf = diContent doc,
                   docCreatedAt = now, docUpdatedAt = now\<rparr>
              | Some row \<Rightarrow>
                  row\<lparr>docContent := diContent doc, docPath := keep (diPath doc) (docPath row),
                      docMetadata := keep (diMetadata doc) (docMetadata row),
                      docScreen := keep (diScreen doc) (docScreen row),
                      docDomain := keep (diDomain doc) (docDomain row),
                      docEmbedding := keep (diEmbedding doc) (docEmbedding row),
                      docTsvOf := diContent doc, docUpdatedAt := now\<rparr>))))"

record RagEngine =
  engineEmbedding :: createEmbedding
  engineDimensions :: nat
  engineGraph :: GraphService
  engineTime :: nat

record EngineState =
  documents :: "jsstring \<rightharpoonup> DocRow"
  graph :: GraphStore

text \<open>\<open>ingestDocument\<close>; \<open>uuid\<close> is what \<open>randomUUID()\<close> returns.\<close>

definition ingestDocument :: "RagEngine \<Rightarrow> jsstring \<Rightarrow> jsstring \<Rightarrow> EngineState \<Rightarrow>
    ((error + BuildResult) \<times> EngineState) option" where
  "ingestDocument engine uuid s st =
     (case engineEmbedding engine (embeddingInput s) of
        Inl e \<Rightarrow> Some (Inl e, st)
      | Inr embedding \<Rightarrow>
          (case upsertDocument (engineDimensions engine) (engineTime engine)
                  \<lparr>diId = uuid, diContent = s, diPath = None, diMetadata = None,
                   diScreen = None, diDomain = None, diEmbedding = Some embedding\<rparr>
                  (documents st) of
             Inl e \<Rightarrow> Some (Inl e, st)
           | Inr table \<Rightarrow>
               (case buildGraphFromDocument (engineGraph engine) s (graph st) of
                  None \<Rightarrow> None
                | Some (r, g) \<Rightarrow> Some (r, \<lparr>documents = table, graph = g\<rparr>))))"

section \<open>Notions of the statements and proofs\<close>

text \<open>
  Fusion: the score a merged map holds for a document, the maps whose entries are filed
  under their own id, and what a list contributes when its head has index \<open>i\<close>.
\<close>

definition scoreOf :: "(jsstring \<times> RagResult) list \<Rightarrow> jsstring \<Rightarrow> real" where
  "scoreOf m k = (case map_of m k of Some r \<Rightarrow> combinedScore r | None \<Rightarrow> 0)"

definition keyed :: "(jsstring \<times> RagResult) list \<Rightarrow> bool" where
  "keyed m = (distinct (map fst m) \<and> (\<forall>p \<in> set m. resId (snd p) = fst p))"

definition contribFrom :: "nat \<Rightarrow> jsstring list \<Rightarrow> jsstring \<Rightarrow> real" where
  "contribFrom i ids d = (if d \<in> set ids then 1 / (60 + real (i + rankIn ids d)) else 0)"

text \<open>Serialisation: the sorted copy of an object, for any type of member values.\<close>

definition copyWith :: "'v \<Rightarrow> (jsstring \<times> 'v) list \<Rightarrow> (jsstring \<times> 'v) list" where
  "copyWith d kvs =
     foldl (\<lambda>r k. setProp r k (case map_of kvs k of Some x \<Rightarrow> x | None \<Rightarrow> d)) []
       (sort (map fst kvs))"

text \<open>
  Graph build: the write an entity and a relation cause, the nodes of a list of entities
  upserted in order, the map from lower-cased names to ids that the node loop leaves
  behind, and the relations both of whose ends that map knows.
\<close>

definition nodeWrite :: "caseMapping \<Rightarrow> ExtractedEntity \<Rightarrow> GraphWrite" where
  "nodeWrite lower e = UpsertNode (generateNodeId lower (entName e) (entType e))"

definition upsertNodes :: "GraphService \<Rightarrow> (ExtractedEntity \<times> jsnum list option) list \<Rightarrow> GraphStore \<Rightarrow> GraphStore" where
  "upsertNodes svc xs store =
     foldl (\<lambda>s x. upsertNode (clock svc) (nodeInput (unicodeLower svc) (fst x) (snd x)) s) store xs"

definition enterNames :: "caseMapping \<Rightarrow> (jsstring \<rightharpoonup> jsstring) \<Rightarrow> ExtractedEntity list \<Rightarrow> (jsstring \<rightharpoonup> jsstring)" where
  "enterNames lower m ents =
     foldl (\<lambda>m e. m(toLowerCase lower (entName e) \<mapsto> generateNodeId lower (entName e) (entType e))) m ents"

definition resolved :: "caseMapping \<Rightarrow> (jsstring \<rightharpoonup> jsstring) \<Rightarrow> ExtractedRelation \<Rightarrow> bool" where
  "resolved lower m r =
     (m (toLowerCase lower (relSource r)) \<noteq> None \<and> m (toLowerCase lower (relTarget r)) \<noteq> None)"

definition edgeWrite :: "caseMapping \<Rightarrow> (jsstring \<rightharpoonup> jsstring) \<Rightarrow> ExtractedRelation \<Rightarrow> GraphWrite" where
  "edgeWrite lower m r =
     UpsertEdge (generateEdgeId (orElse (m (toLowerCase lower (relSource r))) [])
                                (orElse (m (toLowerCase lower (relTarget r))) []) (relationType r))"

definition isNodeWrite :: "GraphWrite \<Rightarrow> bool" where
  "isNodeWrite w = (case w of UpsertNode i \<Rightarrow> True | UpsertEdge i \<Rightarrow> False)"

definition isEdgeWrite :: "GraphWrite \<Rightarrow> bool" where
  "isEdgeWrite w = (case w of UpsertNode i \<Rightarrow> False | UpsertEdge i \<Rightarrow> True)"

section \<open>Scenarios of the specification\<close>

text \<open>
  Hybrid fusion: the vector query answers with the documents \<open>A, B\<close>, the text query with
  \<open>B, C\<close>.
\<close>

definition fusionVectorQuery :: vectorQuery where
  "fusionVectorQuery embedding topK screen =
     [\<lparr>vrId = str ''A'', vrPath = None, vrContent = str ''a'', vrDistance = Some 0,
       vrScreen = None, vrMetadata = None\<rparr>,
      \<lparr>vrId = str ''B'', vrPath = None, vrContent = str ''b'', vrDistance = Some 1,
       vrScreen = None, vrMetadata = None\<rparr>]"

definition fusionTextQuery :: textQuery where
  "fusionTextQuery query topK screen =
     [\<lparr>trId = str ''B'', trPath = None, trContent = str ''b'', trRank = 1 / 2,
       trScreen = None, trMetadata = None\<rparr>,
      \<lparr>trId = str ''C'', trPath = None, trContent = str ''c'', trRank = 1 / 4,
       trScreen = None, trMetadata = None\<rparr>]"

definition fusionResult :: "error + RagResult list" where
  "fusionResult = hybridSearch 1 fusionVectorQuery fusionTextQuery (str ''q'') [Finite 0] 3 None"

definition idsAndScores :: "error + RagResult list \<Rightarrow> (jsstring \<times> real) list" where
  "idsAndScores r = (case r of Inl e \<Rightarrow> [] | Inr rs \<Rightarrow> map (\<lambda>x. (resId x, combinedScore x)) rs)"

definition fusionExpected :: "RagResult list" where
  "fusionExpected =
     [\<lparr>resId = str ''B'', resPath = [], resContent = str ''b'', resScreen = None,
       resDistance = Some 1, resRank = None, vectorScore = Some (1 / 2),
       textScore = Some (1 / 2), combinedScore = 1 / 62 + 1 / 61, resMetadata = None\<rparr>,
      \<lparr>resId = str ''A'', resPath = [], resContent = str ''a'', resScreen = None,
       resDistance = Some 0, resRank = None, vectorScore = Some 1,
       textScore = None, combinedScore = 1 / 61, resMetadata = None\<rparr>,
      \<lparr>resId = str ''C'', resPath = [], resContent = str ''c'', resScreen = None,
       resDistance = None, resRank = Some (1 / 4), vectorScore = None,
       textScore = Some (1 / 4), combinedScore = 1 / 62, resMetadata = None\<rparr>]"

text \<open>
  Chunking: two paragraphs of 2000 code units each, \<open>a\<dots>a\<close> and \<open>b\<dots>b\<close>, with a blank
  line between them.
\<close>

definition twoParagraphs :: jsstring where
  "twoParagraphs = replicate 2000 97 @ [10, 10] @ replicate 2000 98"

text \<open>
  Cache keys: a conversation and a plan written with their members in two orders, a
  context whose keys are the array indices 9 and 10, and a context that does not inherit
  from \<open>Object.prototype\<close>, with its two members in either order. None of them holds a
  number, so the number printer is never asked.
\<close>

definition noNumber :: "real \<Rightarrow> jsstring" where
  "noNumber r = []"

definition messagesRoleFirst :: jsval where
  "messagesRoleFirst = JArr [JObj [(str ''role'', JStr (str ''user'')), (str ''content'', JStr (str ''x''))]]"

definition messagesContentFirst :: jsval where
  "messagesContentFirst = JArr [JObj [(str ''content'', JStr (str ''x'')), (str ''role'', JStr (str ''user''))]]"

definition planQueryFirst :: jsval where
  "planQueryFirst = JObj [(str ''search_query'', JStr (str ''x'')), (str ''should_search'', JBool True)]"

definition planFlagFirst :: jsval where
  "planFlagFirst = JObj [(str ''should_search'', JBool True), (str ''search_query'', JStr (str ''x''))]"

definition contextNineTen :: jsval where
  "contextNineTen = JObj [(str ''9'', JStr (str ''b'')), (str ''10'', JStr (str ''a''))]"

definition bareContextAB :: jsval where
  "bareContextAB = JBare [(str ''a'', JStr (str ''1'')), (str ''b'', JStr (str ''2''))]"

definition bareContextBA :: jsval where
  "bareContextBA = JBare [(str ''b'', JStr (str ''2'')), (str ''a'', JStr (str ''1''))]"

text \<open>
  The runtime and the database of the scenarios. On a string of Latin-1 characters the
  runtime lowers the ASCII capitals and the capitals from U+00C0 to U+00DE (U+00D7, the
  multiplication sign, apart), each to the character 32 places on. The weights of the
  scenarios, \<open>1/2\<close> and \<open>1\<close>, are numbers of single precision, which the database stores
  as they are.
\<close>

definition latinLower :: caseMapping where
  "latinLower s =
     map (\<lambda>c. if (65 \<le> c \<and> c \<le> 90) \<or> (192 \<le> c \<and> c \<le> 222 \<and> c \<noteq> 215) then c + 32 else c) s"

definition storedAsGiven :: "jsnum \<Rightarrow> jsnum option" where
  "storedAsGiven x = Some x"

text \<open>
  Graph build: a short document, an empty store, and three services whose model answers
  with a fixed extraction. The first extracts \<open>Aspirin\<close> and \<open>Fever\<close> with a relation
  between them and a relation from an entity it did not extract, and embeds in three
  dimensions as the store expects. The second extracts the same entities with a relation
  from \<open>ASPIRIN\<close> to \<open>fever\<close> and a relation from \<open>Aspirin\<close> to \<open>Fevers\<close>. The third
  extracts \<open>Fever\<close>, then \<open>Aspirin\<close>, and embeds \<open>Aspirin\<close> in two dimensions.
\<close>

definition documentText :: jsstring where
  "documentText = str ''content''"

definition emptyStore :: GraphStore where
  "emptyStore = \<lparr>nodeTable = Map.empty, edgeTable = Map.empty, writes = []\<rparr>"

definition fixedAnswer :: chatCompletion where
  "fixedAnswer messages options = Inr \<lparr>llmId = str ''1'', llmContent = str ''{}'', llmUsage = None\<rparr>"

definition danglingExtraction :: ExtractionResult where
  "danglingExtraction =
     \<lparr>entities =
        [\<lparr>entName = str ''Aspirin'', entType = str ''drug'',
          entProperties = Some [(str ''dosage'', JStr (str ''100mg''))]\<rparr>,
         \<lparr>entName = str ''Fever'', entType = str ''disease'', entProperties = None\<rparr>],
      relations =
        [\<lparr>relSource = str ''Aspirin'', relTarget = str ''Fever'', relationType = str ''treats'',
          relWeight = Some (Finite (1 / 2))\<rparr>,
         \<lparr>relSource = str ''Unknown'', relTarget = str ''Fever'', relationType = str ''related_to'',
          relWeight = None\<rparr>]\<rparr>"

definition danglingService :: GraphService where
  "danglingService =
     \<lparr>llmProvider = fixedAnswer, parseExtraction = (\<lambda>answer. Some danglingExtraction),
      embeddingProvider = Some (\<lambda>name. Inr [Finite 1, Finite 2, Finite 3]),
      expectedEmbeddingDimensions = 3, unicodeLower = latinLower, columnReal = storedAsGiven,
      clock = 0\<rparr>"

definition shoutedExtraction :: ExtractionResult where
  "shoutedExtraction =
     \<lparr>entities =
        [\<lparr>entName = str ''Aspirin'', entType = str ''drug'', entProperties = None\<rparr>,
         \<lparr>entName = str ''Fever'', entType = str ''disease'', entProperties = None\<rparr>],
      relations =
        [\<lparr>relSource = str ''ASPIRIN'', relTarget = str ''fever'', relationType = str ''treats'',
          relWeight = None\<rparr>,
         \<lparr>relSource = str ''Aspirin'', relTarget = str ''Fevers'', relationType = str ''related_to'',
          relWeight = None\<rparr>]\<rparr>"

definition shoutedService :: GraphService where
  "shoutedService =
     \<lparr>llmProvider = fixedAnswer, parseExtraction = (\<lambda>answer. Some shoutedExtraction),
      embeddingProvider = None,
      expectedEmbeddingDimensions = 3, unicodeLower = latinLower, columnReal = storedAsGiven,
      clock = 0\<rparr>"

definition feverThenAspirin :: ExtractionResult where
  "feverThenAspirin =
     \<lparr>entities =
        [\<lparr>entName = str ''Fever'', entType = str ''disease'', entProperties = None\<rparr>,
         \<lparr>entName = str ''Aspirin'', entType = str ''drug'', entProperties = None\<rparr>],
      relations = []\<rparr>"

definition mismatchService :: GraphService where
  "mismatchService =
     \<lparr>llmProvider = fixedAnswer, parseExtraction = (\<lambda>answer. Some feverThenAspirin),
      embeddingProvider =
        Some (\<lambda>name. Inr (if name = str ''Aspirin'' then [Finite 1, Finite 2]
                            else [Finite 1, Finite 2, Finite 3])),
      expectedEmbeddingDimensions = 3, unicodeLower = latinLower, columnReal = storedAsGiven,
      clock = 0\<rparr>"








text \<open>
  Hit accounting: a table of two rows, the second with its \<open>hit_count\<close> at the maximum of
  the column type.
\<close>

definition fullCounterTable :: CacheTable where
  "fullCounterTable =
     \<lparr>cacheRows =
        [\<lparr>cacheId = 1, requestHash = str ''h1'', question = str ''q1'', cacheContext = None,
          response = str ''a1'', hitCount = 0, lastHitAt = None, createdAt = 1, updatedAt = 1\<rparr>,
         \<lparr>cacheId = 2, requestHash = str ''h2'', question = str ''q2'', cacheContext = None,
          response = str ''a2'', hitCount = 2147483647, lastHitAt = Some 3, createdAt = 2,
          updatedAt = 2\<rparr>],
      cacheSeq = 3\<rparr>"

text \<open>
  Ingestion: 4000 times \<open>A\<close>, one ideographic full stop, 4000 times \<open>B\<close>. The only
  sentence boundary is at position 4000; there is no paragraph boundary.
\<close>

definition sentenceDocument :: jsstring where
  "sentenceDocument = replicate 4000 65 @ [12290] @ replicate 4000 66"

section \<open>Top-k normalisation\<close>

lemma normalize_finite:
  "top_k p = Some (Finite r) \<Longrightarrow>
   top_k (normalizeSearchPlan p) = Some (Finite (of_int (min 8 (max 1 \<lfloor>r\<rfloor>))))"
  by (simp add: normalizeSearchPlan_def normalizeSearchPlanWith_def min_def max_def)

lemma normalize_default:
  "\<forall>r. top_k p \<noteq> Some (Finite r) \<Longrightarrow> top_k (normalizeSearchPlan p) = Some (Finite 5)"
  by (cases "top_k p"; simp add: normalizeSearchPlan_def normalizeSearchPlanWith_def
      split: jsnum.splits option.splits)

text \<open>
  C6. For every plan \<open>p\<close>, the normalised \<open>top_k\<close> is a whole number \<open>n\<close> with
  \<open>1 \<le> n \<le> 8\<close>. When \<open>p.top_k\<close> is a finite number, \<open>n\<close> is \<open>floor(p.top_k)\<close>
  clamped into \<open>[1, 8]\<close>, which is \<open>floor(p.top_k)\<close> itself when \<open>p.top_k\<close> lies in
  \<open>[1, 8]\<close>; when \<open>p.top_k\<close> is absent or not finite, \<open>n\<close> is 5. All other fields of
  the plan are kept.
\<close>

theorem normalize_top_k_clamped:
  "\<exists>n::int. top_k (normalizeSearchPlan p) = Some (Finite (of_int n)) \<and> 1 \<le> n \<and> n \<le> 8 \<and>
     (case top_k p of
        Some (Finite r) \<Rightarrow> n = min 8 (max 1 \<lfloor>r\<rfloor>) \<and> (1 \<le> r \<and> r \<le> 8 \<longrightarrow> n = \<lfloor>r\<rfloor>)
      | _ \<Rightarrow> n = 5)"
proof (cases "\<exists>r. top_k p = Some (Finite r)")
  case True
  then obtain r where r: "top_k p = Some (Finite r)" by blast
  let ?n = "min 8 (max 1 \<lfloor>r\<rfloor>)"
  have "1 \<le> r \<and> r \<le> 8 \<longrightarrow> ?n = \<lfloor>r\<rfloor>"
  proof
    assume "1 \<le> r \<and> r \<le> 8"
    then have "1 \<le> \<lfloor>r\<rfloor>" "\<lfloor>r\<rfloor> \<le> 8" by (simp_all add: le_floor_iff floor_le_iff)
    then show "?n = \<lfloor>r\<rfloor>" by simp
  qed
  with r normalize_finite [OF r] show ?thesis
    by (intro exI [of _ ?n]) simp
next
  case False
  then have "top_k (normalizeSearchPlan p) = Some (Finite 5)"
    by (intro normalize_default) simp
  with False show ?thesis
    by (intro exI [of _ 5]) (auto split: option.splits jsnum.splits)
qed

theorem normalize_top_k_clamped_witness:
  "(1::real) \<le> 49 / 10 \<and> (49::real) / 10 \<le> 8 \<and>
   top_k (normalizeSearchPlan
     \<lparr>should_search = True, search_query = str ''q'', top_k = Some (Finite (49 / 10)),
      reason = None, knowledge_source = None, identified_entities = None,
      navigation_intent = None\<rparr>) = Some (Finite 4)"
proof -
  let ?p = "\<lparr>should_search = True, search_query = str ''q'', top_k = Some (Finite (49 / 10)),
      reason = None, knowledge_source = None, identified_entities = None,
      navigation_intent = None\<rparr>"
  have fl: "\<lfloor>(49::real) / 10\<rfloor> = 4" by (simp add: floor_eq_iff)
  from normalize_top_k_clamped [of ?p] obtain n :: int
    where "top_k (normalizeSearchPlan ?p) = Some (Finite (of_int n))"
      and "n = min 8 (max 1 \<lfloor>(49::real) / 10\<rfloor>)"
    by auto
  with fl show ?thesis by simp
qed

section \<open>Hit accounting of the cache\<close>

lemma increment_rows_other:
  "\<forall>r \<in> set rs. requestHash r \<noteq> h \<Longrightarrow>
   map (\<lambda>r. if requestHash r = h then r\<lparr>hitCount := hitCount r + 1, lastHitAt := Some now\<rparr> else r) rs = rs"
  by (induction rs) auto

lemma increment_no_limit:
  "\<forall>r \<in> set rs. requestHash r = h \<longrightarrow> hitCount r < INT4_MAX \<Longrightarrow>
   \<not> list_ex (\<lambda>r. requestHash r = h \<and> INT4_MAX < hitCount r + 1) rs"
  by (auto simp: list_ex_iff)

text \<open>
  C10 (as amended). \<open>incrementHitCount\<close> with a hash that no row carries completes and
  returns the table as it was: no row is created, none is modified. When the hashes of the
  table are pairwise distinct, the row \<open>r\<close> carries the hash and its \<open>hit_count\<close> is below
  \<open>2^31 - 1\<close>, the call completes and the result differs from the table in that row alone:
  its \<open>hit_count\<close> is one higher and its \<open>last_hit_at\<close> is the time of the call; the rows
  before and after it, and the identity sequence, are unchanged. When the \<open>hit_count\<close> of
  a row that carries the hash is \<open>2^31 - 1\<close>, the call fails with \<open>integer out of range\<close>
  and there is no new table.
\<close>

theorem incrementHitCount_effect:
  "((\<forall>r \<in> set (cacheRows tbl). requestHash r \<noteq> h) \<longrightarrow> incrementHitCount now h tbl = Inr tbl) \<and>
   (distinct (map requestHash (cacheRows tbl)) \<and> cacheRows tbl = pre @ r # post \<and> requestHash r = h \<and>
    hitCount r < 2147483647 \<longrightarrow>
      incrementHitCount now h tbl =
        Inr (tbl\<lparr>cacheRows := pre @ r\<lparr>hitCount := hitCount r + 1, lastHitAt := Some now\<rparr> # post\<rparr>)) \<and>
   (cacheRows tbl = pre @ r # post \<and> requestHash r = h \<and> hitCount r = 2147483647 \<longrightarrow>
      incrementHitCount now h tbl = Inl IntegerOutOfRange)"
proof (intro conjI impI)
  assume a: "\<forall>r \<in> set (cacheRows tbl). requestHash r \<noteq> h"
  then have "\<not> list_ex (\<lambda>r. requestHash r = h \<and> INT4_MAX < hitCount r + 1) (cacheRows tbl)"
    by (auto simp: list_ex_iff)
  with a show "incrementHitCount now h tbl = Inr tbl"
    by (simp add: incrementHitCount_def increment_rows_other)
next
  assume a: "distinct (map requestHash (cacheRows tbl)) \<and> cacheRows tbl = pre @ r # post \<and>
    requestHash r = h \<and> hitCount r < 2147483647"
  then have rows: "cacheRows tbl = pre @ r # post" and h: "requestHash r = h"
    and "distinct (map requestHash (cacheRows tbl))" and low: "hitCount r < 2147483647"
    by blast+
  then have "h \<notin> requestHash ` set pre" "h \<notin> requestHash ` set post"
    by auto
  then have other: "\<forall>x \<in> set pre. requestHash x \<noteq> h" "\<forall>x \<in> set post. requestHash x \<noteq> h"
    by (metis imageI)+
  with rows low have "\<forall>x \<in> set (cacheRows tbl). requestHash x = h \<longrightarrow> hitCount x < INT4_MAX"
    by (auto simp: INT4_MAX_def)
  then have "\<not> list_ex (\<lambda>r. requestHash r = h \<and> INT4_MAX < hitCount r + 1) (cacheRows tbl)"
    by (rule increment_no_limit)
  with rows h other show "incrementHitCount now h tbl =
        Inr (tbl\<lparr>cacheRows := pre @ r\<lparr>hitCount := hitCount r + 1, lastHitAt := Some now\<rparr> # post\<rparr>)"
    by (simp add: incrementHitCount_def increment_rows_other)
next
  assume "cacheRows tbl = pre @ r # post \<and> requestHash r = h \<and> hitCount r = 2147483647"
  then have "list_ex (\<lambda>r. requestHash r = h \<and> INT4_MAX < hitCount r + 1) (cacheRows tbl)"
    by (auto simp: list_ex_iff INT4_MAX_def)
  then show "incrementHitCount now h tbl = Inl IntegerOutOfRange"
    by (simp add: incrementHitCount_def)
qed

theorem incrementHitCount_effect_witness:
  "incrementHitCount 7 (str ''h3'')
     \<lparr>cacheRows =
        [\<lparr>cacheId = 1, requestHash = str ''h1'', question = str ''q1'', cacheContext = None,
          response = str ''a1'', hitCount = 0, lastHitAt = None, createdAt = 1, updatedAt = 1\<rparr>,
         \<lparr>cacheId = 2, requestHash = str ''h2'', question = str ''q2'', cacheContext = None,
          response = str ''a2'', hitCount = 4, lastHitAt = Some 3, createdAt = 2, updatedAt = 2\<rparr>],
      cacheSeq = 3\<rparr> =
     Inr \<lparr>cacheRows =
        [\<lparr>cacheId = 1, requestHash = str ''h1'', question = str ''q1'', cacheContext = None,
          response = str ''a1'', hitCount = 0, lastHitAt = None, createdAt = 1, updatedAt = 1\<rparr>,
         \<lparr>cacheId = 2, requestHash = str ''h2'', question = str ''q2'', cacheContext = None,
          response = str ''a2'', hitCount = 4, lastHitAt = Some 3, createdAt = 2, updatedAt = 2\<rparr>],
      cacheSeq = 3\<rparr> \<and>
   incrementHitCount 7 (str ''h2'')
     \<lparr>cacheRows =
        [\<lparr>cacheId = 1, requestHash = str ''h1'', question = str ''q1'', cacheContext = None,
          response = str ''a1'', hitCount = 0, lastHitAt = None, createdAt = 1, updatedAt = 1\<rparr>,
         \<lparr>cacheId = 2, requestHash = str ''h2'', question = str ''q2'', cacheContext = None,
          response = str ''a2'', hitCount = 4, lastHitAt = Some 3, createdAt = 2, updatedAt = 2\<rparr>],
      cacheSeq = 3\<rparr> =
     Inr \<lparr>cacheRows =
        [\<lparr>cacheId = 1, requestHash = str ''h1'', question = str ''q1'', cacheContext = None,
          response = str ''a1'', hitCount = 0, lastHitAt = None, createdAt = 1, updatedAt = 1\<rparr>,
         \<lparr>cacheId = 2, requestHash = str ''h2'', question = str ''q2'', cacheContext = None,
          response = str ''a2'', hitCount = 5, lastHitAt = Some 7, createdAt = 2, updatedAt = 2\<rparr>],
      cacheSeq = 3\<rparr> \<and>
   incrementHitCount 7 (str ''h2'') fullCounterTable = Inl IntegerOutOfRange"
proof -
  let ?r1 = "\<lparr>cacheId = 1, requestHash = str ''h1'', question = str ''q1'', cacheContext = None,
          response = str ''a1'', hitCount = 0, lastHitAt = None, createdAt = 1, updatedAt = 1\<rparr>"
  let ?r2 = "\<lparr>cacheId = 2, requestHash = str ''h2'', question = str ''q2'', cacheContext = None,
          response = str ''a2'', hitCount = 4, lastHitAt = Some 3, createdAt = 2, updatedAt = 2\<rparr>"
  let ?r3 = "\<lparr>cacheId = 2, requestHash = str ''h2'', question = str ''q2'', cacheContext = None,
          response = str ''a2'', hitCount = 2147483647, lastHitAt = Some 3, createdAt = 2,
          updatedAt = 2\<rparr>"
  let ?tbl = "\<lparr>cacheRows = [?r1, ?r2], cacheSeq = 3\<rparr>"
  have absent: "\<forall>r \<in> set (cacheRows ?tbl). requestHash r \<noteq> str ''h3''"
    by (simp add: str_def)
  have present: "distinct (map requestHash (cacheRows ?tbl)) \<and> cacheRows ?tbl = [?r1] @ ?r2 # []
      \<and> requestHash ?r2 = str ''h2'' \<and> hitCount ?r2 < 2147483647"
    by (simp add: str_def)
  have full: "cacheRows fullCounterTable = [?r1] @ ?r3 # [] \<and> requestHash ?r3 = str ''h2'' \<and>
      hitCount ?r3 = 2147483647"
    by (simp add: fullCounterTable_def)
  from incrementHitCount_effect [of ?tbl "str ''h3''" 7 "[?r1]" ?r2 "[]"] absent
  have 1: "incrementHitCount 7 (str ''h3'') ?tbl = Inr ?tbl" by blast
  from incrementHitCount_effect [of ?tbl "str ''h2''" 7 "[?r1]" ?r2 "[]"] present
  have 2: "incrementHitCount 7 (str ''h2'') ?tbl =
      Inr (?tbl\<lparr>cacheRows := [?r1] @ ?r2\<lparr>hitCount := hitCount ?r2 + 1, lastHitAt := Some 7\<rparr> # []\<rparr>)"
    by blast
  from incrementHitCount_effect [of fullCounterTable "str ''h2''" 7 "[?r1]" ?r3 "[]"] full
  have 3: "incrementHitCount 7 (str ''h2'') fullCounterTable = Inl IntegerOutOfRange"
    by blast
  from 1 2 3 show ?thesis by simp
qed

text \<open>
  The row under \<open>h2\<close> has been hit \<open>2^31 - 1\<close> times: the call for \<open>h2\<close> fails, and its
  result is not the table with that \<open>hit_count\<close> one higher.
\<close>

theorem incrementHitCount_limit_counterexample:
  "findByHash fullCounterTable (str ''h2'') \<noteq> None \<and>
   incrementHitCount 7 (str ''h2'') fullCounterTable = Inl IntegerOutOfRange \<and>
   incrementHitCount 7 (str ''h2'') fullCounterTable \<noteq>
     Inr (fullCounterTable\<lparr>cacheRows :=
            [\<lparr>cacheId = 1, requestHash = str ''h1'', question = str ''q1'', cacheContext = None,
              response = str ''a1'', hitCount = 0, lastHitAt = None, createdAt = 1, updatedAt = 1\<rparr>,
             \<lparr>cacheId = 2, requestHash = str ''h2'', question = str ''q2'', cacheContext = None,
              response = str ''a2'', hitCount = 2147483648, lastHitAt = Some 7, createdAt = 2,
              updatedAt = 2\<rparr>]\<rparr>)"
  by (simp add: incrementHitCount_def findByHash_def fullCounterTable_def INT4_MAX_def str_def)
section \<open>Reciprocal rank fusion\<close>

lemma contribFrom_0: "contribFrom 0 ids d = contribution ids d"
  by (simp add: contribFrom_def contribution_def)

lemma contribFrom_Nil: "contribFrom i [] d = 0"
  by (simp add: contribFrom_def)

lemma contribFrom_Cons:
  "x \<notin> set ids \<Longrightarrow>
   contribFrom i (x # ids) d = (if d = x then rrfScore i else contribFrom (Suc i) ids d)"
  by (auto simp: contribFrom_def rrfScore_def RRF_CONSTANT_def add.commute)

lemma map_fst_mapSet:
  "map fst (mapSet m k v) = (if k \<in> set (map fst m) then map fst m else map fst m @ [k])"
  by (induction m) auto

lemma map_of_mapSet: "map_of (mapSet m k v) = (map_of m)(k \<mapsto> v)"
  by (induction m) (auto simp: fun_eq_iff)

lemma set_mapSet: "set (mapSet m k v) \<subseteq> insert (k, v) (set m)"
  by (induction m) auto

lemma keyed_mapSet: "keyed m \<Longrightarrow> resId v = k \<Longrightarrow> keyed (mapSet m k v)"
  using set_mapSet [of m k v] by (auto simp: keyed_def map_fst_mapSet)

lemma keyed_Nil: "keyed []"
  by (simp add: keyed_def)

lemma keys_mapSet: "fst ` set (mapSet m k v) = insert k (fst ` set m)"
  by (induction m) auto

lemma keys_mergeVector:
  "fst ` set (mergeVector i vs m) = fst ` set m \<union> resId ` set vs"
  by (induction i vs m rule: mergeVector.induct) (auto simp: keys_mapSet)

lemma keyed_mergeVector: "keyed m \<Longrightarrow> keyed (mergeVector i vs m)"
  by (induction i vs m rule: mergeVector.induct) (auto simp: keyed_mapSet)

lemma score_mergeVector:
  "distinct (map resId vs) \<Longrightarrow>
   scoreOf (mergeVector i vs m) d =
     (if d \<in> set (map resId vs) then contribFrom i (map resId vs) d else scoreOf m d)"
proof (induction i vs m rule: mergeVector.induct)
  case (1 i merged)
  then show ?case by simp
next
  case (2 i res rest merged)
  let ?m = "mapSet merged (resId res) (res\<lparr>combinedScore := rrfScore i\<rparr>)"
  have s: "scoreOf ?m d = (if d = resId res then rrfScore i else scoreOf merged d)"
    by (simp add: scoreOf_def map_of_mapSet)
  from 2 have "resId res \<notin> set (map resId rest)" "distinct (map resId rest)" by simp_all
  with 2 s show ?case
    by (auto simp: contribFrom_Cons)
qed

lemma keys_mergeText:
  "fst ` set (mergeText i ts m) = fst ` set m \<union> resId ` set ts"
proof (induction i ts m rule: mergeText.induct)
  case (1 i merged)
  then show ?case by simp
next
  case (2 i res rest merged)
  then show ?case
    by (cases "map_of merged (resId res)") (auto simp: keys_mapSet)
qed

lemma keyed_mergeText: "keyed m \<Longrightarrow> keyed (mergeText i ts m)"
proof (induction i ts m rule: mergeText.induct)
  case (1 i merged)
  then show ?case by simp
next
  case (2 i res rest merged)
  show ?case
  proof (cases "map_of merged (resId res)")
    case None
    with 2 show ?thesis by (simp add: keyed_mapSet)
  next
    case (Some existing)
    then have "(resId res, existing) \<in> set merged" by (rule map_of_SomeD)
    with 2(2) have "resId existing = resId res" by (auto simp: keyed_def)
    with 2 Some show ?thesis by (simp add: keyed_mapSet)
  qed
qed

lemma score_mergeText:
  "distinct (map resId ts) \<Longrightarrow>
   scoreOf (mergeText i ts m) d = scoreOf m d + contribFrom i (map resId ts) d"
proof (induction i ts m rule: mergeText.induct)
  case (1 i merged)
  then show ?case by (simp add: contribFrom_Nil)
next
  case (2 i res rest merged)
  let ?m = "case map_of merged (resId res) of
          Some existing \<Rightarrow>
            mapSet merged (resId res)
              (existing\<lparr>textScore := textScore res,
                        combinedScore := combinedScore existing + rrfScore i\<rparr>)
        | None \<Rightarrow> mapSet merged (resId res) (res\<lparr>combinedScore := rrfScore i\<rparr>)"
  have s: "scoreOf ?m d = scoreOf merged d + (if d = resId res then rrfScore i else 0)"
    by (simp add: scoreOf_def map_of_mapSet split: option.splits)
  from 2 have nin: "resId res \<notin> set (map resId rest)" and "distinct (map resId rest)" by simp_all
  with 2 have "scoreOf (mergeText (Suc i) rest ?m) d = scoreOf ?m d + contribFrom (Suc i) (map resId rest) d"
    by simp
  with s nin show ?case
    by (simp add: contribFrom_Cons) (simp add: contribFrom_def)
qed

lemma scoreOf_Nil: "scoreOf [] d = 0"
  by (simp add: scoreOf_def)

lemma fuse_score:
  assumes "distinct (map resId vs)" "distinct (map resId ts)"
  shows "scoreOf (fuse vs ts) d = contribution (map resId vs) d + contribution (map resId ts) d"
proof -
  have "scoreOf (fuse vs ts) d =
      scoreOf (mergeVector 0 vs []) d + contribFrom 0 (map resId ts) d"
    using assms(2) by (simp add: fuse_def score_mergeText)
  also have "scoreOf (mergeVector 0 vs []) d = contribFrom 0 (map resId vs) d"
    using assms(1) by (simp add: score_mergeVector scoreOf_Nil contribFrom_def)
  finally show ?thesis by (simp add: contribFrom_0)
qed

lemma fuse_keyed: "keyed (fuse vs ts)"
  by (simp add: fuse_def keyed_mergeText keyed_mergeVector keyed_Nil)

lemma fuse_keys: "fst ` set (fuse vs ts) = resId ` set vs \<union> resId ` set ts"
  by (simp add: fuse_def keys_mergeText keys_mergeVector)

lemma keyed_resId: "keyed m \<Longrightarrow> map resId (map snd m) = map fst m"
  by (induction m) (auto simp: keyed_def)

lemma keyed_score:
  assumes "keyed m" "r \<in> set (map snd m)"
  shows "combinedScore r = scoreOf m (resId r)"
proof -
  from assms obtain k where "(k, r) \<in> set m" by auto
  moreover with assms have "resId r = k" by (auto simp: keyed_def)
  ultimately have "map_of m (resId r) = Some r"
    using assms by (simp add: keyed_def)
  then show ?thesis by (simp add: scoreOf_def)
qed

lemma rankedValues_sorted:
  "sorted_wrt (\<lambda>a b. combinedScore b \<le> combinedScore a) (rankedValues m)"
proof -
  have "sorted (map (\<lambda>r. - combinedScore r) (rankedValues m))"
    by (simp add: rankedValues_def)
  then show ?thesis
    by (simp add: sorted_wrt_map)
qed

lemma rankedValues_mset: "mset (rankedValues m) = mset (map snd m)"
  by (simp add: rankedValues_def)

lemma rankedValues_set: "set (rankedValues m) = set (map snd m)"
  by (simp add: rankedValues_def)

lemma rankedValues_ids:
  assumes "keyed m"
  shows "distinct (map resId (rankedValues m))" "set (map resId (rankedValues m)) = set (map fst m)"
proof -
  have "mset (map resId (rankedValues m)) = image_mset resId (mset (rankedValues m))"
    by simp
  also have "\<dots> = image_mset resId (mset (map snd m))"
    by (simp only: rankedValues_mset)
  also have "\<dots> = mset (map resId (map snd m))"
    by (simp only: mset_map)
  also have "\<dots> = mset (map fst m)"
    by (simp only: keyed_resId [OF assms])
  finally have eq: "mset (map resId (rankedValues m)) = mset (map fst m)" .
  from assms have "distinct (map fst m)" by (simp add: keyed_def)
  with eq show "distinct (map resId (rankedValues m))"
    by (metis mset_eq_imp_distinct_iff)
  from eq show "set (map resId (rankedValues m)) = set (map fst m)"
    by (rule mset_eq_setD)
qed

text \<open>
  C1 (as amended). Whenever \<open>hybridSearch\<close> returns, and each of the two queries answered
  with rows of pairwise distinct ids (\<open>id\<close> is the primary key of the table), the result is
  the first \<open>topK\<close> entries of a list \<open>full\<close> that holds every document of either query
  exactly once, is sorted by fused score, highest first, and gives every document the sum
  of what the two lists contribute to it: \<open>1 / (60 + r)\<close> from a list that holds it at
  1-based rank \<open>r\<close>, nothing from a list that does not hold it.
\<close>

theorem hybridSearch_rrf:
  assumes "hybridSearch dims vq tq query embedding topK screen = Inr res"
    and "distinct (map vrId (vq embedding topK (screenFilter screen)))"
    and "distinct (map trId (tq query topK (screenFilter screen)))"
  shows "\<exists>full. res = take topK full \<and>
           sorted_wrt (\<lambda>a b. combinedScore b \<le> combinedScore a) full \<and>
           distinct (map resId full) \<and>
           set (map resId full) = set (map vrId (vq embedding topK (screenFilter screen))) \<union>
                                  set (map trId (tq query topK (screenFilter screen))) \<and>
           (\<forall>r \<in> set full.
              combinedScore r =
                contribution (map vrId (vq embedding topK (screenFilter screen))) (resId r) +
                contribution (map trId (tq query topK (screenFilter screen))) (resId r))"
proof -
  let ?vrows = "vq embedding topK (screenFilter screen)"
  let ?trows = "tq query topK (screenFilter screen)"
  let ?vs = "map vectorHit ?vrows"
  let ?ts = "map textHit ?trows"
  let ?full = "rankedValues (fuse ?vs ?ts)"
  have vid: "map resId ?vs = map vrId ?vrows"
    by (simp add: vectorHit_def)
  have tid: "map resId ?ts = map trId ?trows"
    by (simp add: textHit_def)
  from assms(1) have fv: "findByVector dims vq embedding topK screen = Inr ?vs"
    by (auto simp: hybridSearch_def findByVector_def split: sum.splits if_splits)
  with assms(1) have res: "res = take topK ?full"
    by (simp add: hybridSearch_def findByText_def)
  have dv: "distinct (map resId ?vs)" and dt: "distinct (map resId ?ts)"
    using assms(2,3) by (simp_all only: vid tid)
  have ids: "set (map resId ?full) = set (map vrId ?vrows) \<union> set (map trId ?trows)"
  proof -
    have "set (map resId ?full) = fst ` set (fuse ?vs ?ts)"
      using rankedValues_ids(2) [OF fuse_keyed, of ?vs ?ts] by simp
    also have "\<dots> = resId ` set ?vs \<union> resId ` set ?ts"
      by (rule fuse_keys)
    also have "\<dots> = set (map resId ?vs) \<union> set (map resId ?ts)"
      by (simp only: set_map)
    finally show ?thesis by (simp only: vid tid)
  qed
  have scores: "\<forall>r \<in> set ?full. combinedScore r =
      contribution (map vrId ?vrows) (resId r) + contribution (map trId ?trows) (resId r)"
  proof
    fix r assume "r \<in> set ?full"
    then have "r \<in> set (map snd (fuse ?vs ?ts))" by (simp only: rankedValues_set)
    then have "combinedScore r = scoreOf (fuse ?vs ?ts) (resId r)"
      by (rule keyed_score [OF fuse_keyed])
    also have "\<dots> = contribution (map resId ?vs) (resId r) + contribution (map resId ?ts) (resId r)"
      by (rule fuse_score [OF dv dt])
    finally show "combinedScore r =
      contribution (map vrId ?vrows) (resId r) + contribution (map trId ?trows) (resId r)"
      by (simp only: vid tid)
  qed
  from res rankedValues_sorted [of "fuse ?vs ?ts"] rankedValues_ids(1) [OF fuse_keyed, of ?vs ?ts]
    ids scores
  show ?thesis by blast
qed

lemma fusionResult_value: "fusionResult = Inr fusionExpected"
  by (simp add: fusionResult_def fusionExpected_def hybridSearch_def findByVector_def
      findByText_def isFinite_def fusionVectorQuery_def fusionTextQuery_def screenFilter_def
      vectorHit_def textHit_def orElse_def fuse_def rankedValues_def sort_key_def rrfScore_def
      RRF_CONSTANT_def str_def)

lemma fusionExpected_scores:
  "map (\<lambda>x. (resId x, combinedScore x)) fusionExpected =
     [(str ''B'', 1 / 62 + 1 / 61), (str ''A'', 1 / 61), (str ''C'', 1 / 62)]"
  by (simp add: fusionExpected_def)

theorem hybridSearch_rrf_witness:
  "fusionResult = Inr fusionExpected \<and>
   distinct (map vrId (fusionVectorQuery [Finite 0] 3 (screenFilter None))) \<and>
   distinct (map trId (fusionTextQuery (str ''q'') 3 (screenFilter None))) \<and>
   (\<exists>full. fusionExpected = take 3 full \<and>
           sorted_wrt (\<lambda>a b. combinedScore b \<le> combinedScore a) full \<and>
           distinct (map resId full) \<and>
           set (map resId full) = {str ''A'', str ''B'', str ''C''})"
proof -
  have dv: "distinct (map vrId (fusionVectorQuery [Finite 0] 3 (screenFilter None)))"
    by (simp add: fusionVectorQuery_def str_def)
  have dt: "distinct (map trId (fusionTextQuery (str ''q'') 3 (screenFilter None)))"
    by (simp add: fusionTextQuery_def str_def)
  have run: "hybridSearch 1 fusionVectorQuery fusionTextQuery (str ''q'') [Finite 0] 3 None
      = Inr fusionExpected"
    using fusionResult_value by (simp only: fusionResult_def)
  have ids: "set (map vrId (fusionVectorQuery [Finite 0] 3 (screenFilter None))) \<union>
        set (map trId (fusionTextQuery (str ''q'') 3 (screenFilter None))) =
        {str ''A'', str ''B'', str ''C''}"
    by (auto simp: fusionVectorQuery_def fusionTextQuery_def)
  from hybridSearch_rrf [OF run dv dt] obtain full where
    "fusionExpected = take 3 full" "sorted_wrt (\<lambda>a b. combinedScore b \<le> combinedScore a) full"
    "distinct (map resId full)"
    "set (map resId full) = set (map vrId (fusionVectorQuery [Finite 0] 3 (screenFilter None))) \<union>
        set (map trId (fusionTextQuery (str ''q'') 3 (screenFilter None)))"
    by blast
  then have "\<exists>full. fusionExpected = take 3 full \<and>
           sorted_wrt (\<lambda>a b. combinedScore b \<le> combinedScore a) full \<and>
           distinct (map resId full) \<and>
           set (map resId full) = {str ''A'', str ''B'', str ''C''}"
    unfolding ids by blast
  with fusionResult_value dv dt show ?thesis
    by blast
qed

text \<open>
  The fusion scenario is written down with the score \<open>1/61 + 1/61\<close> for \<open>B\<close>. \<open>B\<close> is
  second in the vector list and first in the text list, so its score is \<open>1/62 + 1/61\<close>.
\<close>

theorem hybridSearch_scenario_scores_counterexample:
  "idsAndScores fusionResult =
     [(str ''B'', 1 / 62 + 1 / 61), (str ''A'', 1 / 61), (str ''C'', 1 / 62)] \<and>
   idsAndScores fusionResult \<noteq>
     [(str ''B'', 1 / 61 + 1 / 61), (str ''A'', 1 / 61), (str ''C'', 1 / 62)]"
  by (simp add: fusionResult_value idsAndScores_def fusionExpected_scores)

section \<open>Node identity\<close>

lemma replicate_numeral: "replicate (numeral k) x = x # replicate (pred_numeral k) x"
  by (simp add: numeral_eq_Suc)

lemma blocks_short: "length bs < 64 \<Longrightarrow> blocks bs = []"
  by (subst blocks.simps) simp

lemma blocks_long: "\<not> length bs < 64 \<Longrightarrow> blocks bs = take 64 bs # blocks (drop 64 bs)"
  by (subst blocks.simps) simp

lemmas sha256_eval =
  sha256_hex_def sha256_def pad_def lengthBytes_def blocks_short blocks_long replicate_numeral
  compress_def roundConstants_def initialHash_def bsig0_def bsig1_def ssig0_def ssig1_def
  rotr_def ch_def maj_def add32_def temp1_def temp2_def hexWord_def hexDigit_def str_def

lemma sha256_abc:
  "sha256_hex (str ''abc'') =
     str ''ba7816bf8f01cfea414140de5dae2223b00361a396177a9cb410ff61f20015ad''"
  by (simp add: sha256_eval del: blocks.simps)

lemma sha256_two_blocks:
  "sha256_hex (str ''abcdbcdecdefdefgefghfghighijhijkijkljklmklmnlmnomnopnopq'') =
     str ''248d6a61d20638b8e5c026930c3e6039a33ce45964ff2167f6ecedd419db06c1''"
  by (simp add: sha256_eval del: blocks.simps)

lemma sha256_aspirin_drug:
  "sha256_hex (str ''aspirin::drug'') =
     str ''676948c9d75dc98709abdaa277092fb35e2ab8b0bfad1b11c1897251ed9e6fb0''"
  by (simp add: sha256_eval del: blocks.simps)

lemma sha256_aspirin_chemical:
  "sha256_hex (str ''aspirin::chemical'') =
     str ''bf5c084e833046355674c298720dfe91238e84e809ccd5d151bf3b0119443698''"
  by (simp add: sha256_eval del: blocks.simps)

lemma sha256_ecole_organization:
  "sha256_hex ([233, 99, 111, 108, 101] @ str ''::organization'') =
     str ''954acfd45cc513b8ed08740af02bdf87fc596e4a520de8cd89bfea2509c002ea''"
  by (simp add: sha256_eval del: blocks.simps)

lemma sha256_aspirin_mixed:
  "sha256_hex (str ''aspirin::'' @ [233, 26481, 55357, 56458, 55296, 120, 56320]) =
     str ''65b8be65c4493718ff91e86da3cc748ccabfef76ae7e8d68ee3e8e8e45b40e17''"
  by (simp add: sha256_eval del: blocks.simps)

lemma sha256_aspirin_ends_two_bytes:
  "sha256_hex (str ''aspirin::'' @ [26481, 233]) =
     str ''8edd44b7ebd59f4e630d2d706f8a70b27a6c02e6278e4361c1e01bf171a64d3b''"
  by (simp add: sha256_eval del: blocks.simps)

lemma sha256_aspirin_ends_three_bytes:
  "sha256_hex (str ''aspirin::'' @ [233, 26481]) =
     str ''d4afa28cbf03453d80c0167606e072b6d1113a5cb5c0e287127054cd26357c68''"
  by (simp add: sha256_eval del: blocks.simps)

lemma lower_Aspirin: "toLowerCase lower (str ''Aspirin'') = str ''aspirin''"
  by (simp add: toLowerCase_def isAscii_def toLowerUnit_def str_def)

lemma lower_aspirin: "toLowerCase lower (str ''aspirin'') = str ''aspirin''"
  by (simp add: toLowerCase_def isAscii_def toLowerUnit_def str_def)

lemma nodeId_Aspirin_drug:
  "generateNodeId lower (str ''Aspirin'') (str ''drug'') = str ''node_676948c9d75dc987''"
  using sha256_aspirin_drug
  by (simp add: generateNodeId_def lower_Aspirin) (simp add: str_def)

lemma nodeId_aspirin_drug:
  "generateNodeId lower (str ''aspirin'') (str ''drug'') = str ''node_676948c9d75dc987''"
  using sha256_aspirin_drug
  by (simp add: generateNodeId_def lower_aspirin) (simp add: str_def)

lemma nodeId_Aspirin_chemical:
  "generateNodeId lower (str ''Aspirin'') (str ''chemical'') = str ''node_bf5c084e83304635''"
  using sha256_aspirin_chemical
  by (simp add: generateNodeId_def lower_Aspirin) (simp add: str_def)

lemma nodeId_Aspirin_mixed:
  "generateNodeId lower (str ''Aspirin'') [233, 26481, 55357, 56458, 55296, 120, 56320] =
     str ''node_65b8be65c4493718''"
  using sha256_aspirin_mixed
  by (simp add: generateNodeId_def lower_Aspirin) (simp add: str_def)

lemma nodeId_Aspirin_ends_two_bytes:
  "generateNodeId lower (str ''Aspirin'') [26481, 233] = str ''node_8edd44b7ebd59f4e''"
  using sha256_aspirin_ends_two_bytes
  by (simp add: generateNodeId_def lower_Aspirin) (simp add: str_def)

lemma nodeId_Aspirin_ends_three_bytes:
  "generateNodeId lower (str ''Aspirin'') [233, 26481] = str ''node_d4afa28cbf03453d''"
  using sha256_aspirin_ends_three_bytes
  by (simp add: generateNodeId_def lower_Aspirin) (simp add: str_def)

lemma nodeId_ECOLE:
  "lower [201, 67, 79, 76, 69] = [233, 99, 111, 108, 101] \<Longrightarrow>
   generateNodeId lower [201, 67, 79, 76, 69] (str ''organization'') = str ''node_954acfd45cc513b8''"
  using sha256_ecole_organization
  by (simp add: generateNodeId_def toLowerCase_def isAscii_def) (simp add: str_def)

text \<open>
  C9. For every case mapping of the runtime, the id of a node is \<open>node_\<close> followed by the
  first sixteen hexadecimal characters of the SHA-256 digest of the lower-cased name,
  \<open>::\<close> and the type. Two names that agree once lower-cased get the same id for the same
  type; two ASCII names agree once lower-cased when they differ in the case of letters
  only. The id of \<open>Aspirin\<close> of type \<open>drug\<close> is \<open>node_676948c9d75dc987\<close>, and so is the id
  of \<open>aspirin\<close> of type \<open>drug\<close>; the id of \<open>Aspirin\<close> of type \<open>chemical\<close> is another one.
  The digest is taken of the UTF-8 encoding: the ids of \<open>Aspirin\<close> with three types
  written with characters of two, three and four bytes and with unpaired surrogates, and
  the id of the name U+00C9 \<open>COLE\<close> of type \<open>organization\<close> on a runtime that lowers it
  to U+00E9 \<open>cole\<close>, are the ones the code computes.
\<close>

theorem generateNodeId_deterministic:
  "generateNodeId lower name type =
     str ''node_'' @ take 16 (sha256_hex (toLowerCase lower name @ str ''::'' @ type)) \<and>
   (toLowerCase lower name = toLowerCase lower name' \<longrightarrow>
      generateNodeId lower name type = generateNodeId lower name' type) \<and>
   (isAscii name \<and> isAscii name' \<and> map toLowerUnit name = map toLowerUnit name' \<longrightarrow>
      generateNodeId lower name type = generateNodeId lower name' type) \<and>
   generateNodeId lower (str ''Aspirin'') (str ''drug'') = generateNodeId lower (str ''aspirin'') (str ''drug'') \<and>
   generateNodeId lower (str ''Aspirin'') (str ''drug'') \<noteq> generateNodeId lower (str ''Aspirin'') (str ''chemical'') \<and>
   generateNodeId lower (str ''Aspirin'') (str ''drug'') = str ''node_676948c9d75dc987'' \<and>
   generateNodeId lower (str ''Aspirin'') (str ''chemical'') = str ''node_bf5c084e83304635'' \<and>
   generateNodeId lower (str ''Aspirin'') [233, 26481, 55357, 56458, 55296, 120, 56320] =
     str ''node_65b8be65c4493718'' \<and>
   generateNodeId lower (str ''Aspirin'') [26481, 233] = str ''node_8edd44b7ebd59f4e'' \<and>
   generateNodeId lower (str ''Aspirin'') [233, 26481] = str ''node_d4afa28cbf03453d'' \<and>
   (lower [201, 67, 79, 76, 69] = [233, 99, 111, 108, 101] \<longrightarrow>
      generateNodeId lower [201, 67, 79, 76, 69] (str ''organization'') = str ''node_954acfd45cc513b8'')"
proof -
  have 1: "generateNodeId lower name type =
     str ''node_'' @ take 16 (sha256_hex (toLowerCase lower name @ str ''::'' @ type))"
    by (simp add: generateNodeId_def)
  have 2: "toLowerCase lower name = toLowerCase lower name' \<longrightarrow>
      generateNodeId lower name type = generateNodeId lower name' type"
    by (simp add: generateNodeId_def)
  have 3: "isAscii name \<and> isAscii name' \<and> map toLowerUnit name = map toLowerUnit name' \<longrightarrow>
      generateNodeId lower name type = generateNodeId lower name' type"
    by (simp add: generateNodeId_def toLowerCase_def)
  have 4: "generateNodeId lower (str ''Aspirin'') (str ''drug'') =
      generateNodeId lower (str ''aspirin'') (str ''drug'')"
    by (simp only: nodeId_Aspirin_drug nodeId_aspirin_drug)
  have 5: "generateNodeId lower (str ''Aspirin'') (str ''drug'') \<noteq>
      generateNodeId lower (str ''Aspirin'') (str ''chemical'')"
    unfolding nodeId_Aspirin_drug nodeId_Aspirin_chemical by (simp add: str_def)
  have 6: "lower [201, 67, 79, 76, 69] = [233, 99, 111, 108, 101] \<longrightarrow>
      generateNodeId lower [201, 67, 79, 76, 69] (str ''organization'') = str ''node_954acfd45cc513b8''"
    using nodeId_ECOLE [of lower] by blast
  from 1 2 3 4 5 6 nodeId_Aspirin_drug [of lower] nodeId_Aspirin_chemical [of lower]
    nodeId_Aspirin_mixed [of lower] nodeId_Aspirin_ends_two_bytes [of lower]
    nodeId_Aspirin_ends_three_bytes [of lower]
  show ?thesis by blast
qed

theorem generateNodeId_deterministic_witness:
  "toLowerCase latinLower (str ''Aspirin'') = toLowerCase latinLower (str ''aspirin'') \<and>
   isAscii (str ''ASPIRIN'') \<and> isAscii (str ''aspirin'') \<and>
   map toLowerUnit (str ''ASPIRIN'') = map toLowerUnit (str ''aspirin'') \<and>
   generateNodeId latinLower (str ''ASPIRIN'') (str ''drug'') = str ''node_676948c9d75dc987'' \<and>
   latinLower [201, 67, 79, 76, 69] = [233, 99, 111, 108, 101] \<and>
   generateNodeId latinLower [201, 67, 79, 76, 69] (str ''organization'') = str ''node_954acfd45cc513b8''"
proof -
  note inst = generateNodeId_deterministic [of latinLower "str ''ASPIRIN''" "str ''drug''" "str ''aspirin''"]
  have l: "toLowerCase latinLower (str ''Aspirin'') = toLowerCase latinLower (str ''aspirin'')"
    by (simp only: lower_Aspirin lower_aspirin)
  have a: "isAscii (str ''ASPIRIN'') \<and> isAscii (str ''aspirin'') \<and>
      map toLowerUnit (str ''ASPIRIN'') = map toLowerUnit (str ''aspirin'')"
    by (simp add: isAscii_def toLowerUnit_def str_def)
  have e: "latinLower [201, 67, 79, 76, 69] = [233, 99, 111, 108, 101]"
    by (simp add: latinLower_def)
  from inst a have "generateNodeId latinLower (str ''ASPIRIN'') (str ''drug'') =
      generateNodeId latinLower (str ''aspirin'') (str ''drug'')"
    by blast
  moreover from inst have "generateNodeId latinLower (str ''Aspirin'') (str ''drug'') =
      generateNodeId latinLower (str ''aspirin'') (str ''drug'')"
    "generateNodeId latinLower (str ''Aspirin'') (str ''drug'') = str ''node_676948c9d75dc987''"
    by blast+
  moreover from inst e have
    "generateNodeId latinLower [201, 67, 79, 76, 69] (str ''organization'') = str ''node_954acfd45cc513b8''"
    by blast
  ultimately show ?thesis using l a e by simp
qed

lemma utf8_samples:
  "utf8 [12290] = [227, 128, 130]"
  "utf8 [55357, 56832] = [240, 159, 152, 128]"
  "utf8 [233, 65] = [195, 169, 65]"
  "utf8 [56832] = [239, 191, 189]"
  by simp_all
section \<open>Chunks stay within the budget and keep the text\<close>

lemma nonSpace_append: "nonSpace (a @ b) = nonSpace a @ nonSpace b"
  by (simp add: nonSpace_def)

lemma nonSpace_Nil: "nonSpace [] = []"
  by (simp add: nonSpace_def)

lemma nonSpace_concat_append: "nonSpace (concat (xs @ ys)) = nonSpace (concat xs) @ nonSpace (concat ys)"
  by (simp add: nonSpace_def)

lemma nonSpace_dropWhile: "nonSpace (dropWhile isSpace s) = nonSpace s"
  by (induction s) (auto simp: nonSpace_def)

lemma nonSpace_separators: "nonSpace [32] = []" "nonSpace [10, 10] = []"
  by (simp_all add: nonSpace_def isSpace_def)

lemma nonSpace_dropWhile_lf: "nonSpace (dropWhile (\<lambda>x. x = 10) s) = nonSpace s"
  by (induction s) (auto simp: nonSpace_def isSpace_def)

lemma nonSpace_paragraphSplit:
  "nonSpace (concat (paragraphSplit cur s)) = nonSpace cur @ nonSpace s"
proof (induction cur s rule: paragraphSplit.induct)
  case (1 cur)
  then show ?case by (simp add: nonSpace_def)
next
  case (2 cur c)
  then show ?case by (simp add: nonSpace_def)
next
  case (3 cur c d cs)
  show ?case
  proof (cases "c = 10 \<and> d = 10")
    case True
    have "nonSpace (c # d # cs) = nonSpace cs"
      using True by (simp add: nonSpace_def isSpace_def)
    with 3(1) True show ?thesis
      by (simp add: nonSpace_append nonSpace_Nil nonSpace_dropWhile_lf)
  next
    case False
    then have eq: "paragraphSplit cur (c # d # cs) = paragraphSplit (cur @ [c]) (d # cs)"
      by auto
    have "nonSpace (cur @ [c]) @ nonSpace (d # cs) = nonSpace cur @ nonSpace (c # d # cs)"
      by (simp add: nonSpace_def)
    with 3(2) [OF False] show ?thesis by (simp only: eq)
  qed
qed

lemma nonSpace_sentenceSplit:
  "nonSpace (concat (sentenceSplit b cur s)) = nonSpace cur @ nonSpace s"
proof (induction b cur s rule: sentenceSplit.induct)
  case (1 b cur)
  then show ?case by (simp add: nonSpace_def)
next
  case (2 b cur c cs)
  show ?case
  proof (cases "b \<and> isSpace c")
    case True
    have "nonSpace (c # cs) = nonSpace cs"
      using True by (simp add: nonSpace_def)
    with 2(1) True show ?thesis
      by (simp add: nonSpace_append nonSpace_Nil nonSpace_dropWhile)
  next
    case False
    then have eq: "sentenceSplit b cur (c # cs) = sentenceSplit (isTerminator c) (cur @ [c]) cs"
      by auto
    have "nonSpace (cur @ [c]) @ nonSpace cs = nonSpace cur @ nonSpace (c # cs)"
      by (simp add: nonSpace_def)
    with 2(2) [OF False] show ?thesis by (simp only: eq)
  qed
qed

text \<open>The slicing loop returns when the chunk size is positive, and what it appends.\<close>

lemma hardSlices_returns:
  assumes "0 < n"
  shows "\<exists>slices. hardSlices n s i parts = Some (parts @ slices) \<and>
           (\<forall>c \<in> set slices. length c \<le> n) \<and> concat slices = drop i s"
proof (induction "length s - i" arbitrary: i parts rule: less_induct)
  case less
  show ?case
  proof (cases "i < length s")
    case False
    then show ?thesis
      by (subst hardSlices.simps) simp
  next
    case True
    with assms have "length s - (i + n) < length s - i" by arith
    from less [OF this, of "parts @ [take n (drop i s)]"]
    obtain slices where
      s: "hardSlices n s (i + n) (parts @ [take n (drop i s)]) = Some ((parts @ [take n (drop i s)]) @ slices)"
      and b: "\<forall>c \<in> set slices. length c \<le> n" and c: "concat slices = drop (i + n) s"
      by blast
    have "hardSlices n s i parts = Some (parts @ (take n (drop i s) # slices))"
      using True s by (subst hardSlices.simps) simp
    moreover have "\<forall>c \<in> set (take n (drop i s) # slices). length c \<le> n"
      using b by simp
    moreover have "concat (take n (drop i s) # slices) = drop i s"
      using c by (simp add: add.commute [of i n] flip: drop_drop)
    ultimately show ?thesis by blast
  qed
qed

lemma sentenceLoop_returns:
  assumes "0 < n"
  shows "\<forall>p \<in> set parts. length p \<le> n \<Longrightarrow> length current \<le> n \<Longrightarrow>
         \<exists>res. sentenceLoop n sentences parts current = Some res \<and>
           (\<forall>c \<in> set res. length c \<le> n) \<and>
           nonSpace (concat res) =
             nonSpace (concat parts) @ nonSpace current @ nonSpace (concat sentences)"
proof (induction sentences arbitrary: parts current)
  case Nil
  then show ?case by (auto simp: nonSpace_def)
next
  case (Cons sentence rest)
  show ?case
  proof (cases "length sentence > n")
    case True
    let ?base = "if length current > 0 then parts @ [current] else parts"
    have base: "\<forall>p \<in> set ?base. length p \<le> n"
      using Cons.prems by auto
    have nb: "nonSpace (concat ?base) = nonSpace (concat parts) @ nonSpace current"
      by (auto simp: nonSpace_def)
    from hardSlices_returns [OF assms, of sentence 0 ?base]
    obtain slices where s: "hardSlices n sentence 0 ?base = Some (?base @ slices)"
      and b: "\<forall>c \<in> set slices. length c \<le> n" and c: "concat slices = sentence"
      by auto
    from base b have "\<forall>p \<in> set (?base @ slices). length p \<le> n" by auto
    from Cons.IH [OF this, of "[]"]
    obtain res where r: "sentenceLoop n rest (?base @ slices) [] = Some res"
      and rb: "\<forall>c \<in> set res. length c \<le> n"
      and rc: "nonSpace (concat res) =
          nonSpace (concat (?base @ slices)) @ nonSpace [] @ nonSpace (concat rest)"
      by auto
    have "sentenceLoop n (sentence # rest) parts current = Some res"
      using True s r by simp
    moreover have "nonSpace (concat res) =
        nonSpace (concat parts) @ nonSpace current @ nonSpace (concat (sentence # rest))"
      using rc c nb by (simp add: nonSpace_concat_append nonSpace_Nil nonSpace_append)
    ultimately show ?thesis using rb by blast
  next
    case False
    show ?thesis
    proof (cases "length current + length sentence + 1 > n \<and> length current > 0")
      case True
      from Cons.prems have "\<forall>p \<in> set (parts @ [current]). length p \<le> n" by auto
      moreover from False have "length sentence \<le> n" by simp
      ultimately obtain res where r: "sentenceLoop n rest (parts @ [current]) sentence = Some res"
        and rb: "\<forall>c \<in> set res. length c \<le> n"
        and rc: "nonSpace (concat res) =
          nonSpace (concat (parts @ [current])) @ nonSpace sentence @ nonSpace (concat rest)"
        using Cons.IH [of "parts @ [current]" sentence] by blast
      have "sentenceLoop n (sentence # rest) parts current = Some res"
        using True False r by simp
      moreover have "nonSpace (concat res) =
          nonSpace (concat parts) @ nonSpace current @ nonSpace (concat (sentence # rest))"
        using rc by (simp add: nonSpace_append)
      ultimately show ?thesis using rb by blast
    next
      case notfull: False
      let ?cur = "if current \<noteq> [] then current @ [32] @ sentence else sentence"
      have len: "length ?cur \<le> n"
        using False notfull by auto
      have nc: "nonSpace ?cur = nonSpace current @ nonSpace sentence"
        by (simp add: nonSpace_def isSpace_def)
      from Cons.IH [OF Cons.prems(1) len]
      obtain res where r: "sentenceLoop n rest parts ?cur = Some res"
        and rb: "\<forall>c \<in> set res. length c \<le> n"
        and rc: "nonSpace (concat res) =
          nonSpace (concat parts) @ nonSpace ?cur @ nonSpace (concat rest)"
        by blast
      have "sentenceLoop n (sentence # rest) parts current = Some res"
        using False notfull r by auto
      moreover have "nonSpace (concat res) =
          nonSpace (concat parts) @ nonSpace current @ nonSpace (concat (sentence # rest))"
        using rc nc by (simp add: nonSpace_append)
      ultimately show ?thesis using rb by blast
    qed
  qed
qed

lemma splitLargeParagraph_returns:
  assumes "0 < n"
  shows "\<exists>parts. splitLargeParagraph para n = Some parts \<and>
           (\<forall>c \<in> set parts. length c \<le> n) \<and> nonSpace (concat parts) = nonSpace para"
proof -
  from sentenceLoop_returns [OF assms, of "[]" "[]" "sentenceSplit False [] para"]
  obtain res where "sentenceLoop n (sentenceSplit False [] para) [] [] = Some res"
    "\<forall>c \<in> set res. length c \<le> n"
    "nonSpace (concat res) = nonSpace (concat []) @ nonSpace [] @
        nonSpace (concat (sentenceSplit False [] para))"
    by auto
  then show ?thesis
    by (simp add: splitLargeParagraph_def nonSpace_sentenceSplit nonSpace_Nil)
qed

lemma paragraphLoop_returns:
  assumes "0 < n"
  shows "\<forall>p \<in> set chunks. length p \<le> n \<Longrightarrow> length current \<le> n \<Longrightarrow>
         \<exists>res. paragraphLoop n paras chunks current = Some res \<and>
           (\<forall>c \<in> set res. length c \<le> n) \<and>
           nonSpace (concat res) =
             nonSpace (concat chunks) @ nonSpace current @ nonSpace (concat paras)"
proof (induction paras arbitrary: chunks current)
  case Nil
  then show ?case by (auto simp: nonSpace_def)
next
  case (Cons para rest)
  show ?case
  proof (cases "length para > n")
    case True
    let ?base = "if length current > 0 then chunks @ [current] else chunks"
    have base: "\<forall>p \<in> set ?base. length p \<le> n"
      using Cons.prems by auto
    have nb: "nonSpace (concat ?base) = nonSpace (concat chunks) @ nonSpace current"
      by (auto simp: nonSpace_def)
    from splitLargeParagraph_returns [OF assms, of para]
    obtain parts where s: "splitLargeParagraph para n = Some parts"
      and b: "\<forall>c \<in> set parts. length c \<le> n" and c: "nonSpace (concat parts) = nonSpace para"
      by auto
    from base b have "\<forall>p \<in> set (?base @ parts). length p \<le> n" by auto
    from Cons.IH [OF this, of "[]"]
    obtain res where r: "paragraphLoop n rest (?base @ parts) [] = Some res"
      and rb: "\<forall>c \<in> set res. length c \<le> n"
      and rc: "nonSpace (concat res) =
          nonSpace (concat (?base @ parts)) @ nonSpace [] @ nonSpace (concat rest)"
      by auto
    have "paragraphLoop n (para # rest) chunks current = Some res"
      using True s r by simp
    moreover have "nonSpace (concat res) =
        nonSpace (concat chunks) @ nonSpace current @ nonSpace (concat (para # rest))"
      using rc c nb by (simp add: nonSpace_concat_append nonSpace_Nil nonSpace_append)
    ultimately show ?thesis using rb by blast
  next
    case False
    show ?thesis
    proof (cases "length current + length para + 2 > n \<and> length current > 0")
      case True
      from Cons.prems have "\<forall>p \<in> set (chunks @ [current]). length p \<le> n" by auto
      moreover from False have "length para \<le> n" by simp
      ultimately obtain res where r: "paragraphLoop n rest (chunks @ [current]) para = Some res"
        and rb: "\<forall>c \<in> set res. length c \<le> n"
        and rc: "nonSpace (concat res) =
          nonSpace (concat (chunks @ [current])) @ nonSpace para @ nonSpace (concat rest)"
        using Cons.IH [of "chunks @ [current]" para] by blast
      have "paragraphLoop n (para # rest) chunks current = Some res"
        using True False r by simp
      moreover have "nonSpace (concat res) =
          nonSpace (concat chunks) @ nonSpace current @ nonSpace (concat (para # rest))"
        using rc by (simp add: nonSpace_append)
      ultimately show ?thesis using rb by blast
    next
      case notfull: False
      let ?cur = "if current \<noteq> [] then current @ [10, 10] @ para else para"
      have len: "length ?cur \<le> n"
        using False notfull by auto
      have nc: "nonSpace ?cur = nonSpace current @ nonSpace para"
        by (simp add: nonSpace_def isSpace_def)
      from Cons.IH [OF Cons.prems(1) len]
      obtain res where r: "paragraphLoop n rest chunks ?cur = Some res"
        and rb: "\<forall>c \<in> set res. length c \<le> n"
        and rc: "nonSpace (concat res) =
          nonSpace (concat chunks) @ nonSpace ?cur @ nonSpace (concat rest)"
        by blast
      have "paragraphLoop n (para # rest) chunks current = Some res"
        using False notfull r by auto
      moreover have "nonSpace (concat res) =
          nonSpace (concat chunks) @ nonSpace current @ nonSpace (concat (para # rest))"
        using rc nc by (simp add: nonSpace_append)
      ultimately show ?thesis using rb by blast
    qed
  qed
qed

text \<open>
  C8 (as amended). For every text and every positive chunk size (the extractor passes
  3000), \<open>splitIntoChunks\<close> returns; every chunk has at most \<open>chunkSize\<close> code units; and the
  chunks, read in order, hold the text up to white space: deleting the white space of the
  concatenated chunks gives the text with its white space deleted. The separators between
  paragraphs and sentences are not kept: they are dropped or replaced by a blank line or
  a space.
\<close>

theorem splitIntoChunks_bounded_ordered:
  assumes "0 < chunkSize"
  shows "\<exists>chunks. splitIntoChunks text chunkSize = Some chunks \<and>
           (\<forall>c \<in> set chunks. length c \<le> chunkSize) \<and>
           nonSpace (concat chunks) = nonSpace text"
proof (cases "length text \<le> chunkSize")
  case True
  then show ?thesis by (simp add: splitIntoChunks_def)
next
  case False
  from paragraphLoop_returns [OF assms, of "[]" "[]" "paragraphSplit [] text"]
  obtain res where "paragraphLoop chunkSize (paragraphSplit [] text) [] [] = Some res"
    "\<forall>c \<in> set res. length c \<le> chunkSize"
    "nonSpace (concat res) = nonSpace (concat []) @ nonSpace [] @
        nonSpace (concat (paragraphSplit [] text))"
    by auto
  with False show ?thesis
    by (simp add: splitIntoChunks_def nonSpace_paragraphSplit nonSpace_Nil)
qed

theorem splitIntoChunks_bounded_ordered_witness:
  "(0::nat) < 5 \<and>
   splitIntoChunks (str ''ab. cdefghijkl'' @ [10, 10] @ str ''m n'') 5 =
     Some [str ''ab.'', str ''cdefg'', str ''hijkl'', str ''m n''] \<and>
   nonSpace (concat [str ''ab.'', str ''cdefg'', str ''hijkl'', str ''m n'']) =
     nonSpace (str ''ab. cdefghijkl'' @ [10, 10] @ str ''m n'')"
proof -
  have run: "splitIntoChunks (str ''ab. cdefghijkl'' @ [10, 10] @ str ''m n'') 5 =
     Some [str ''ab.'', str ''cdefg'', str ''hijkl'', str ''m n'']"
    by (simp add: splitIntoChunks_def splitLargeParagraph_def hardSlices.simps str_def
        isSpace_def isTerminator_def)
  from splitIntoChunks_bounded_ordered [of 5 "str ''ab. cdefghijkl'' @ [10, 10] @ str ''m n''"]
  obtain chunks where
    "splitIntoChunks (str ''ab. cdefghijkl'' @ [10, 10] @ str ''m n'') 5 = Some chunks"
    "nonSpace (concat chunks) = nonSpace (str ''ab. cdefghijkl'' @ [10, 10] @ str ''m n'')"
    by auto
  with run show ?thesis by simp
qed

lemma paragraphSplit_plain: "10 \<notin> set s \<Longrightarrow> paragraphSplit cur s = [cur @ s]"
  by (induction cur s rule: paragraphSplit.induct) auto

lemma paragraphSplit_at_blank_line:
  "10 \<notin> set xs \<Longrightarrow>
   paragraphSplit cur (xs @ 10 # 10 # ys) =
     (cur @ xs) # paragraphSplit [] (dropWhile (\<lambda>x. x = 10) ys)"
proof (induction xs arbitrary: cur)
  case Nil
  then show ?case by simp
next
  case (Cons x xs)
  then have x: "x \<noteq> 10" by auto
  obtain d cs where dcs: "xs @ 10 # 10 # ys = d # cs"
    by (cases xs) auto
  then have "paragraphSplit cur ((x # xs) @ 10 # 10 # ys) = paragraphSplit (cur @ [x]) (xs @ 10 # 10 # ys)"
    using x by simp
  with Cons show ?case by simp
qed

lemma twoParagraphs_chunks:
  "splitIntoChunks twoParagraphs 3000 = Some [replicate 2000 97, replicate 2000 98]"
proof -
  have "paragraphSplit [] twoParagraphs = [replicate 2000 97, replicate 2000 98]"
    unfolding twoParagraphs_def
    using paragraphSplit_at_blank_line [of "replicate 2000 97" "[]" "replicate 2000 98"]
    by (simp add: paragraphSplit_plain)
  moreover have "length twoParagraphs = 4002"
    by (simp add: twoParagraphs_def)
  ultimately show ?thesis
    by (simp add: splitIntoChunks_def)
qed

text \<open>
  The chunks of the two paragraphs are the paragraphs; the blank line is in no chunk,
  so the chunks put together are not the text.
\<close>

theorem splitIntoChunks_partition_counterexample:
  "splitIntoChunks twoParagraphs 3000 = Some [replicate 2000 97, replicate 2000 98] \<and>
   concat [replicate 2000 97, replicate 2000 98] \<noteq> twoParagraphs"
proof -
  have "length (concat [replicate 2000 97, replicate 2000 98 :: nat list]) \<noteq> length twoParagraphs"
    by (simp add: twoParagraphs_def)
  then have "concat [replicate 2000 97, replicate 2000 98] \<noteq> twoParagraphs"
    by metis
  with twoParagraphs_chunks show ?thesis by simp
qed

section \<open>Stability of the cache key\<close>

lemma sortedCopy_copyWith: "sortedCopy kvs = copyWith JUndefined kvs"
  by (simp add: sortedCopy_def copyWith_def getProp_def)

lemma map_insertIndexKey:
  "map (apsnd f) (insertIndexKey r k v) = insertIndexKey (map (apsnd f) r) k (f v)"
  by (induction r) auto

lemma map_setProp: "map (apsnd f) (setProp r k v) = setProp (map (apsnd f) r) k (f v)"
proof -
  have keys: "fst ` set (map (apsnd f) r) = fst ` set r"
    by (force simp: image_iff)
  have upd: "map (apsnd f) (map (\<lambda>p. if fst p = k then (k, v) else p) r) =
      map (\<lambda>p. if fst p = k then (k, f v) else p) (map (apsnd f) r)"
    by (induction r) auto
  show ?thesis
    unfolding setProp_def defineProp_def keys
    by (simp only: upd map_insertIndexKey map_append list.map apsnd_conv if_distrib [of "map (apsnd f)"]
        cong: if_cong)
qed

lemma map_of_apsnd: "map_of (map (apsnd f) kvs) k = map_option f (map_of kvs k)"
  by (induction kvs) auto

lemma map_fold_setProp:
  "map (apsnd f) (foldl (\<lambda>r k. setProp r k (case map_of kvs k of Some x \<Rightarrow> x | None \<Rightarrow> d)) r ks) =
   foldl (\<lambda>r k. setProp r k (case map_of (map (apsnd f) kvs) k of Some x \<Rightarrow> x | None \<Rightarrow> f d))
     (map (apsnd f) r) ks"
proof (induction ks arbitrary: r)
  case Nil
  then show ?case by simp
next
  case (Cons k ks)
  have "f (case map_of kvs k of Some x \<Rightarrow> x | None \<Rightarrow> d) =
      (case map_of (map (apsnd f) kvs) k of Some x \<Rightarrow> x | None \<Rightarrow> f d)"
    by (simp add: map_of_apsnd split: option.splits)
  with Cons [of "setProp r k (case map_of kvs k of Some x \<Rightarrow> x | None \<Rightarrow> d)"]
  show ?case by (simp add: map_setProp)
qed

lemma map_copyWith: "map (apsnd f) (copyWith d kvs) = copyWith (f d) (map (apsnd f) kvs)"
proof -
  have "map fst (map (apsnd f) kvs) = map fst kvs" by (induction kvs) auto
  then show ?thesis
    unfolding copyWith_def using map_fold_setProp [where f = f and kvs = kvs and d = d and r = "[]"]
    by simp
qed

lemma copyWith_reorder:
  assumes "distinct (map fst kvs)" "mset kvs' = mset kvs"
  shows "copyWith d kvs' = copyWith d kvs"
proof -
  have "mset (map fst kvs') = mset (map fst kvs)"
    using assms(2) by (metis mset_map)
  then have keys: "sort (map fst kvs') = sort (map fst kvs)"
    by (intro properties_for_sort) simp_all
  have "distinct (map fst kvs')"
    using assms \<open>mset (map fst kvs') = mset (map fst kvs)\<close> by (metis mset_eq_imp_distinct_iff)
  moreover have "set kvs' = set kvs"
    using assms(2) by (rule mset_eq_setD)
  ultimately have "map_of kvs' = map_of kvs"
    using assms(1) by (simp add: map_of_inject_set)
  with keys show ?thesis by (simp add: copyWith_def)
qed

text \<open>What an object is written as, in terms of what its members are written as.\<close>

lemma serialize_object:
  "serializeJSONProperty n (JObj kvs) =
     Some ([123] @
       join [44] (concat (map (\<lambda>q. member (fst q) (snd q))
         (copyWith (serializeJSONProperty n JUndefined)
            (map (apsnd (serializeJSONProperty n)) kvs)))) @ [125])"
proof -
  have "map (\<lambda>p. member (fst p) (serializeJSONProperty n (snd p))) (sortedCopy kvs) =
      map (\<lambda>q. member (fst q) (snd q)) (map (apsnd (serializeJSONProperty n)) (sortedCopy kvs))"
    by (simp add: comp_def)
  also have "map (apsnd (serializeJSONProperty n)) (sortedCopy kvs) =
      copyWith (serializeJSONProperty n JUndefined) (map (apsnd (serializeJSONProperty n)) kvs)"
    by (simp only: sortedCopy_copyWith map_copyWith)
  finally show ?thesis by simp
qed

lemma stableStringify_permuted:
  "keysPermuted v v' \<Longrightarrow> stableStringify n v = stableStringify n v'"
proof (induction rule: keysPermuted.induct)
  case (same v)
  then show ?case by simp
next
  case (reorder kvs kvs')
  then have "sortedCopy kvs' = sortedCopy kvs"
    unfolding sortedCopy_copyWith by (rule copyWith_reorder)
  then show ?case
    unfolding stableStringify_def serializeJSONProperty.simps by (rule ssubst) (rule refl)
next
  case (inMember v v' before k after)
  then have "map (apsnd (serializeJSONProperty n)) (before @ (k, v) # after) =
      map (apsnd (serializeJSONProperty n)) (before @ (k, v') # after)"
    by (simp add: stableStringify_def)
  then show ?case
    by (simp only: stableStringify_def serialize_object)
next
  case (inBareMember v v' before k after)
  then show ?case by (simp add: stableStringify_def)
next
  case (inElement v v' before after)
  then show ?case by (simp add: stableStringify_def)
next
  case (chain u v w)
  then show ?case by simp
qed

text \<open>
  Without array indices and without \<open>__proto__\<close> among its keys, the sorted copy of an
  object has the keys in sorted order.
\<close>

lemma fold_setProp_plain:
  "distinct ks \<Longrightarrow> \<forall>k \<in> set ks. \<not> isArrayIndex k \<and> k \<noteq> str ''__proto__'' \<and> k \<notin> fst ` set r \<Longrightarrow>
   map fst (foldl (\<lambda>r k. setProp r k (f k)) r ks) = map fst r @ ks"
proof (induction ks arbitrary: r)
  case Nil
  then show ?case by simp
next
  case (Cons k ks)
  then have step: "setProp r k (f k) = r @ [(k, f k)]"
    by (simp add: setProp_def defineProp_def)
  have "\<forall>k' \<in> set ks. \<not> isArrayIndex k' \<and> k' \<noteq> str ''__proto__'' \<and> k' \<notin> fst ` set (r @ [(k, f k)])"
    using Cons.prems by auto
  with Cons.IH [of "r @ [(k, f k)]"] Cons.prems step show ?case by simp
qed

lemma sortedCopy_plain_keys:
  assumes "distinct (map fst kvs)"
    and "\<forall>k \<in> set (map fst kvs). \<not> isArrayIndex k \<and> k \<noteq> str ''__proto__''"
  shows "map fst (sortedCopy kvs) = sort (map fst kvs)"
proof -
  have "distinct (sort (map fst kvs))" using assms(1) by simp
  moreover have "\<forall>k \<in> set (sort (map fst kvs)).
      \<not> isArrayIndex k \<and> k \<noteq> str ''__proto__'' \<and> k \<notin> fst ` set ([] :: (jsstring \<times> jsval) list)"
    using assms(2) by simp
  ultimately show ?thesis
    unfolding sortedCopy_def
    using fold_setProp_plain [of "sort (map fst kvs)" "[]" "getProp kvs"] by simp
qed

lemma cacheKeyObject_permuted:
  assumes "keysPermuted m m'" "keysPermuted c c'" "keysPermuted p p'"
  shows "keysPermuted (cacheKeyObject m c p) (cacheKeyObject m' c' p')"
proof -
  let ?v = "(str ''cacheVersion'', JStr CACHE_VERSION)"
  have 1: "keysPermuted (cacheKeyObject m c p) (cacheKeyObject m' c p)"
    unfolding cacheKeyObject_def
    using keysPermuted.inMember [OF assms(1), of "[?v]" "str ''messages''"
        "[(str ''context'', c), (str ''plan'', p)]"]
    by simp
  have 2: "keysPermuted (cacheKeyObject m' c p) (cacheKeyObject m' c' p)"
    unfolding cacheKeyObject_def
    using keysPermuted.inMember [OF assms(2), of "[?v, (str ''messages'', m')]" "str ''context''"
        "[(str ''plan'', p)]"]
    by simp
  have 3: "keysPermuted (cacheKeyObject m' c' p) (cacheKeyObject m' c' p')"
    unfolding cacheKeyObject_def
    using keysPermuted.inMember [OF assms(3), of "[?v, (str ''messages'', m'), (str ''context'', c')]"
        "str ''plan''" "[]"]
    by simp
  from 1 2 3 show ?thesis by (blast intro: keysPermuted.chain)
qed


text \<open>
  C5 (as amended). The cache key is the SHA-256 digest, in hexadecimal, of the stable
  serialisation of \<open>{cacheVersion: "v2", messages, context, plan}\<close>, which always exists.
  The serialisation writes the members of every object that inherits from
  \<open>Object.prototype\<close>, at every nesting level, in an order that its keys alone decide, and
  the elements of an array in their order: two inputs that differ in the order of the keys
  of some such objects have the same serialisation and the same cache key. The order of
  the members of such an object is the sorted order of its keys when no key is an array
  index or \<open>__proto__\<close>. An object that does not inherit from \<open>Object.prototype\<close> is
  written with its members in the order it has them.
\<close>

theorem cacheKey_stable:
  "(\<exists>s. stableStringify n (cacheKeyObject messages ctx plan) = Some s \<and>
        cacheKey n messages ctx plan = Inr (sha256_hex s)) \<and>
   (keysPermuted messages messages' \<and> keysPermuted ctx ctx' \<and> keysPermuted plan plan' \<longrightarrow>
      cacheKey n messages ctx plan = cacheKey n messages' ctx' plan') \<and>
   (keysPermuted v v' \<longrightarrow> stableStringify n v = stableStringify n v') \<and>
   stableStringify n (JArr xs) =
     Some ([91] @ join [44] (map (\<lambda>x. element (stableStringify n x)) xs) @ [93]) \<and>
   (distinct (map fst kvs) \<and> (\<forall>k \<in> set (map fst kvs). \<not> isArrayIndex k \<and> k \<noteq> str ''__proto__'') \<longrightarrow>
      map fst (sortedCopy kvs) = sort (map fst kvs)) \<and>
   stableStringify n (JObj kvs) =
     Some ([123] @
           join [44] (concat (map (\<lambda>p. member (fst p) (stableStringify n (snd p))) (sortedCopy kvs))) @
           [125]) \<and>
   stableStringify n (JBare bare) =
     Some ([123] @
           join [44] (concat (map (\<lambda>p. member (fst p) (stableStringify n (snd p))) bare)) @
           [125])"
proof -
  have a: "\<exists>s. stableStringify n (cacheKeyObject messages ctx plan) = Some s \<and>
        cacheKey n messages ctx plan = Inr (sha256_hex s)"
    by (simp add: cacheKey_def cacheKeyObject_def stableStringify_def)
  have b: "keysPermuted messages messages' \<and> keysPermuted ctx ctx' \<and> keysPermuted plan plan' \<longrightarrow>
      cacheKey n messages ctx plan = cacheKey n messages' ctx' plan'"
  proof
    assume "keysPermuted messages messages' \<and> keysPermuted ctx ctx' \<and> keysPermuted plan plan'"
    then have "keysPermuted (cacheKeyObject messages ctx plan) (cacheKeyObject messages' ctx' plan')"
      by (simp add: cacheKeyObject_permuted)
    then have "stableStringify n (cacheKeyObject messages ctx plan) =
        stableStringify n (cacheKeyObject messages' ctx' plan')"
      by (rule stableStringify_permuted)
    then show "cacheKey n messages ctx plan = cacheKey n messages' ctx' plan'"
      by (simp only: cacheKey_def)
  qed
  have c: "keysPermuted v v' \<longrightarrow> stableStringify n v = stableStringify n v'"
    by (simp add: stableStringify_permuted)
  have d: "stableStringify n (JArr xs) =
     Some ([91] @ join [44] (map (\<lambda>x. element (stableStringify n x)) xs) @ [93])"
    by (simp add: stableStringify_def)
  have e: "distinct (map fst kvs) \<and> (\<forall>k \<in> set (map fst kvs). \<not> isArrayIndex k \<and> k \<noteq> str ''__proto__'') \<longrightarrow>
      map fst (sortedCopy kvs) = sort (map fst kvs)"
    using sortedCopy_plain_keys [of kvs] by blast
  have f: "stableStringify n (JObj kvs) =
     Some ([123] @
           join [44] (concat (map (\<lambda>p. member (fst p) (stableStringify n (snd p))) (sortedCopy kvs))) @
           [125])"
    by (simp add: stableStringify_def)
  have g: "stableStringify n (JBare bare) =
     Some ([123] @
           join [44] (concat (map (\<lambda>p. member (fst p) (stableStringify n (snd p))) bare)) @
           [125])"
    by (simp add: stableStringify_def)
  from a b c d e f g show ?thesis by blast
qed

lemma messages_permuted: "keysPermuted messagesRoleFirst messagesContentFirst"
proof -
  have "keysPermuted (JObj [(str ''role'', JStr (str ''user'')), (str ''content'', JStr (str ''x''))])
      (JObj [(str ''content'', JStr (str ''x'')), (str ''role'', JStr (str ''user''))])"
    by (rule keysPermuted.reorder) (simp_all add: str_def)
  from keysPermuted.inElement [OF this, of "[]" "[]"] show ?thesis
    by (simp add: messagesRoleFirst_def messagesContentFirst_def)
qed

lemma plan_permuted: "keysPermuted planQueryFirst planFlagFirst"
  unfolding planQueryFirst_def planFlagFirst_def
  by (rule keysPermuted.reorder) (simp_all add: str_def)

theorem cacheKey_stable_witness:
  "keysPermuted messagesRoleFirst messagesContentFirst \<and>
   keysPermuted contextNineTen contextNineTen \<and>
   keysPermuted planQueryFirst planFlagFirst \<and>
   cacheKey noNumber messagesRoleFirst contextNineTen planQueryFirst =
     cacheKey noNumber messagesContentFirst contextNineTen planFlagFirst \<and>
   stableStringify noNumber planQueryFirst = stableStringify noNumber planFlagFirst \<and>
   map fst (sortedCopy [(str ''search_query'', JStr (str ''x'')), (str ''should_search'', JBool True)]) =
     [str ''search_query'', str ''should_search'']"
proof -
  let ?kvs = "[(str ''search_query'', JStr (str ''x'')), (str ''should_search'', JBool True)]"
  note inst = cacheKey_stable [where n = noNumber and messages = messagesRoleFirst
      and ctx = contextNineTen and plan = planQueryFirst and messages' = messagesContentFirst
      and ctx' = contextNineTen and plan' = planFlagFirst and v = planQueryFirst
      and v' = planFlagFirst and xs = "[]" and kvs = ?kvs and bare = "[]"]
  have ctx: "keysPermuted contextNineTen contextNineTen"
    by (rule keysPermuted.same)
  have plain: "distinct (map fst ?kvs) \<and>
      (\<forall>k \<in> set (map fst ?kvs). \<not> isArrayIndex k \<and> k \<noteq> str ''__proto__'')"
    by (simp add: str_def isArrayIndex_def isDigit_def)
  have srt: "sort (map fst ?kvs) = [str ''search_query'', str ''should_search'']"
    by (simp add: str_def)
  from inst have 1: "keysPermuted messagesRoleFirst messagesContentFirst \<and>
      keysPermuted contextNineTen contextNineTen \<and> keysPermuted planQueryFirst planFlagFirst \<longrightarrow>
      cacheKey noNumber messagesRoleFirst contextNineTen planQueryFirst =
        cacheKey noNumber messagesContentFirst contextNineTen planFlagFirst"
    by blast
  from inst have 2: "keysPermuted planQueryFirst planFlagFirst \<longrightarrow>
      stableStringify noNumber planQueryFirst = stableStringify noNumber planFlagFirst"
    by blast
  from inst have 3: "distinct (map fst ?kvs) \<and>
      (\<forall>k \<in> set (map fst ?kvs). \<not> isArrayIndex k \<and> k \<noteq> str ''__proto__'') \<longrightarrow>
      map fst (sortedCopy ?kvs) = sort (map fst ?kvs)"
    by blast
  from 1 2 3 messages_permuted ctx plan_permuted plain srt show ?thesis
    by simp
qed

text \<open>
  The context \<open>{"9": "b", "10": "a"}\<close>: \<open>sort\<close> puts \<open>"10"\<close> before \<open>"9"\<close>, the copy
  enumerates the index 9 before the index 10, and so does the output, whose keys are not
  in sorted order. The context with the members \<open>a\<close> and \<open>b\<close> that does not inherit from
  \<open>Object.prototype\<close>: its members are written in the order it has them, and the request
  has one cache key with \<open>a\<close> first and another with \<open>b\<close> first.
\<close>

lemma bare_serialised:
  \<open>stableStringify noNumber (cacheKeyObject (JArr []) bareContextAB (JObj [])) =
     Some (str ''{"cacheVersion":"v2","context":{"a":"1","b":"2"},"messages":[],"plan":{}}'')\<close>
  \<open>stableStringify noNumber (cacheKeyObject (JArr []) bareContextBA (JObj [])) =
     Some (str ''{"cacheVersion":"v2","context":{"b":"2","a":"1"},"messages":[],"plan":{}}'')\<close>
  by (simp_all add: stableStringify_def cacheKeyObject_def bareContextAB_def bareContextBA_def
      CACHE_VERSION_def sortedCopy_def setProp_def defineProp_def getProp_def isArrayIndex_def
      isDigit_def digitsValue_def member_def quoteJSON_def escapeUnit_def element_def str_def)

lemma sha256_bare_AB:
  \<open>sha256_hex (str ''{"cacheVersion":"v2","context":{"a":"1","b":"2"},"messages":[],"plan":{}}'') =
     str ''25ed9be6b9130fb9228604d482710ba461c7cfd6e71806117da936855164e2a7''\<close>
  by (simp add: sha256_eval del: blocks.simps)

lemma sha256_bare_BA:
  \<open>sha256_hex (str ''{"cacheVersion":"v2","context":{"b":"2","a":"1"},"messages":[],"plan":{}}'') =
     str ''06e50a6a0306f02e65f772a2d195e220fa5cd61f456ee59884eacca1763bff71''\<close>
  by (simp add: sha256_eval del: blocks.simps)

theorem stableStringify_sorted_keys_counterexample:
  "sort [str ''9'', str ''10''] = [str ''10'', str ''9''] \<and>
   map fst (sortedCopy [(str ''9'', JStr (str ''b'')), (str ''10'', JStr (str ''a''))]) =
     [str ''9'', str ''10''] \<and>
   stableStringify noNumber contextNineTen =
     Some ([123] @ quoteJSON (str ''9'') @ [58] @ quoteJSON (str ''b'') @ [44] @
           quoteJSON (str ''10'') @ [58] @ quoteJSON (str ''a'') @ [125]) \<and>
   stableStringify noNumber bareContextBA =
     Some ([123] @ quoteJSON (str ''b'') @ [58] @ quoteJSON (str ''2'') @ [44] @
           quoteJSON (str ''a'') @ [58] @ quoteJSON (str ''1'') @ [125]) \<and>
   cacheKey noNumber (JArr []) bareContextAB (JObj []) =
     Inr (str ''25ed9be6b9130fb9228604d482710ba461c7cfd6e71806117da936855164e2a7'') \<and>
   cacheKey noNumber (JArr []) bareContextBA (JObj []) =
     Inr (str ''06e50a6a0306f02e65f772a2d195e220fa5cd61f456ee59884eacca1763bff71'')"
proof -
  have 1: "sort [str ''9'', str ''10''] = [str ''10'', str ''9''] \<and>
   map fst (sortedCopy [(str ''9'', JStr (str ''b'')), (str ''10'', JStr (str ''a''))]) =
     [str ''9'', str ''10''] \<and>
   stableStringify noNumber contextNineTen =
     Some ([123] @ quoteJSON (str ''9'') @ [58] @ quoteJSON (str ''b'') @ [44] @
           quoteJSON (str ''10'') @ [58] @ quoteJSON (str ''a'') @ [125])"
    by (simp add: stableStringify_def contextNineTen_def sortedCopy_def setProp_def defineProp_def
        getProp_def isArrayIndex_def isDigit_def digitsValue_def member_def str_def)
  have 2: "stableStringify noNumber bareContextBA =
     Some ([123] @ quoteJSON (str ''b'') @ [58] @ quoteJSON (str ''2'') @ [44] @
           quoteJSON (str ''a'') @ [58] @ quoteJSON (str ''1'') @ [125])"
    by (simp add: stableStringify_def bareContextBA_def member_def)
  have 3: "cacheKey noNumber (JArr []) bareContextAB (JObj []) =
     Inr (str ''25ed9be6b9130fb9228604d482710ba461c7cfd6e71806117da936855164e2a7'')"
    by (simp only: cacheKey_def bare_serialised option.case sha256_bare_AB)
  have 4: "cacheKey noNumber (JArr []) bareContextBA (JObj []) =
     Inr (str ''06e50a6a0306f02e65f772a2d195e220fa5cd61f456ee59884eacca1763bff71'')"
    by (simp only: cacheKey_def bare_serialised option.case sha256_bare_BA)
  from 1 2 3 4 show ?thesis by blast
qed
section \<open>Writes of the graph build\<close>

lemma upsertNode_writes: "writes (upsertNode now n s) = writes s @ [UpsertNode (niId n)]"
  by (simp add: upsertNode_def)

lemma upsertNode_edges: "edgeTable (upsertNode now n s) = edgeTable s"
  by (simp add: upsertNode_def)

lemma upsertEdge_writes:
  "upsertEdge conv now e s = Inr s' \<Longrightarrow> writes s' = writes s @ [UpsertEdge (eiId e)]"
  by (auto simp: upsertEdge_def split: option.splits)

lemma upsertNodes_writes:
  "writes (upsertNodes svc xs s) = writes s @ map (\<lambda>x. nodeWrite (unicodeLower svc) (fst x)) xs"
  unfolding upsertNodes_def
  by (induction xs arbitrary: s) (simp_all add: upsertNode_writes nodeWrite_def nodeInput_def)

lemma upsertNodes_edges: "edgeTable (upsertNodes svc xs s) = edgeTable s"
  unfolding upsertNodes_def
  by (induction xs arbitrary: s) (simp_all add: upsertNode_edges)

lemma enterNames_dom:
  "dom (enterNames lower m ents) = dom m \<union> (\<lambda>e. toLowerCase lower (entName e)) ` set ents"
  unfolding enterNames_def by (induction ents arbitrary: m) auto

lemma nodeLoop_stops:
  assumes "\<forall>x \<in> set pre. \<not> mismatch (expectedEmbeddingDimensions svc) (snd x)"
    and "mismatch (expectedEmbeddingDimensions svc) emb"
  shows "nodeLoop svc (pre @ (e, emb) # rest) m n s =
     (Inl (DimensionMismatch (expectedEmbeddingDimensions svc) (length (orElse emb []))),
      upsertNodes svc pre s)"
  using assms(1)
proof (induction pre arbitrary: m n s)
  case Nil
  with assms(2) show ?case by (simp add: upsertNodes_def)
next
  case (Cons x pre)
  obtain e' emb' where x: "x = (e', emb')" by (cases x)
  with Cons.prems have "\<not> mismatch (expectedEmbeddingDimensions svc) emb'" by simp
  with Cons x show ?case by (simp add: upsertNodes_def)
qed

lemma nodeLoop_completes:
  assumes "\<forall>x \<in> set xs. \<not> mismatch (expectedEmbeddingDimensions svc) (snd x)"
  shows "nodeLoop svc xs m n s =
     (Inr (enterNames (unicodeLower svc) m (map fst xs), n + length xs), upsertNodes svc xs s)"
  using assms
proof (induction xs arbitrary: m n s)
  case Nil
  then show ?case by (simp add: upsertNodes_def enterNames_def)
next
  case (Cons x xs)
  obtain e emb where x: "x = (e, emb)" by (cases x)
  with Cons.prems have "\<not> mismatch (expectedEmbeddingDimensions svc) emb" by simp
  with Cons x show ?case by (simp add: upsertNodes_def enterNames_def)
qed

lemma nodeLoop_Inr_good:
  "nodeLoop svc xs m n s = (Inr r, s') \<Longrightarrow>
   \<forall>x \<in> set xs. \<not> mismatch (expectedEmbeddingDimensions svc) (snd x)"
proof (induction xs arbitrary: m n s)
  case Nil
  then show ?case by simp
next
  case (Cons x xs)
  obtain e emb where x: "x = (e, emb)" by (cases x)
  with Cons.prems have ok: "\<not> mismatch (expectedEmbeddingDimensions svc) emb"
    by (auto split: if_splits)
  with Cons.prems x have "nodeLoop svc xs
      (m(toLowerCase (unicodeLower svc) (entName e) \<mapsto>
         generateNodeId (unicodeLower svc) (entName e) (entType e))) (Suc n)
      (upsertNode (clock svc) (nodeInput (unicodeLower svc) e emb) s) = (Inr r, s')"
    by simp
  from Cons.IH [OF this] ok x show ?case by simp
qed

lemma edgeLoop_effect:
  "edgeLoop svc rs m n s = (Inr k, s') \<Longrightarrow>
   k = n + length (filter (resolved (unicodeLower svc) m) rs) \<and>
   writes s' = writes s @ map (edgeWrite (unicodeLower svc) m) (filter (resolved (unicodeLower svc) m) rs)"
proof (induction rs arbitrary: n s)
  case Nil
  then show ?case by simp
next
  case (Cons r rs)
  let ?lower = "unicodeLower svc"
  show ?case
  proof (cases "resolved ?lower m r")
    case True
    then obtain a b where ab: "m (toLowerCase ?lower (relSource r)) = Some a"
        "m (toLowerCase ?lower (relTarget r)) = Some b"
      by (auto simp: resolved_def)
    show ?thesis
    proof (cases "upsertEdge (columnReal svc) (clock svc) (edgeInput a b r) s")
      case (Inl e)
      with ab Cons.prems show ?thesis by simp
    next
      case (Inr s1)
      with ab Cons.prems have "edgeLoop svc rs m (Suc n) s1 = (Inr k, s')" by simp
      from Cons.IH [OF this] have
        "k = Suc n + length (filter (resolved ?lower m) rs)"
        "writes s' = writes s1 @ map (edgeWrite ?lower m) (filter (resolved ?lower m) rs)"
        by blast+
      moreover from upsertEdge_writes [OF Inr] have "writes s1 = writes s @ [UpsertEdge (eiId (edgeInput a b r))]" .
      ultimately show ?thesis using True ab
        by (simp add: edgeWrite_def edgeInput_def orElse_def)
    qed
  next
    case False
    then have "edgeLoop svc (r # rs) m n s = edgeLoop svc rs m n s"
      by (auto simp: resolved_def split: option.splits)
    with Cons.prems have "edgeLoop svc rs m n s = (Inr k, s')" by simp
    from Cons.IH [OF this] False show ?thesis by simp
  qed
qed

lemma zip_embeddings_length:
  "length (embeddingResults svc ents) = length ents"
  by (simp add: embeddingResults_def split: option.splits)

text \<open>
  C3 (as amended). When the embedding of the entity at position \<open>i\<close> of the extraction has
  a length other than \<open>D\<close>, and no entity before it has such an embedding, the build fails
  with \<open>DimensionMismatch\<close>. No edge has been written and no node at or after position
  \<open>i\<close>; the nodes of the \<open>i\<close> entities before it have been upserted, in their order. The
  store is unchanged when \<open>i = 0\<close>; upserts have been invoked on it when \<open>0 < i\<close>.
\<close>

theorem buildGraph_mismatch_stops:
  assumes "GraphExtractor_extract (unicodeLower svc) (llmProvider svc) (parseExtraction svc) text =
      Some (Inr extraction)"
    and "i < length (entities extraction)"
    and "embeddingResults svc (entities extraction) ! i = Some v"
    and "length v \<noteq> expectedEmbeddingDimensions svc"
    and "\<forall>j < i. \<not> mismatch (expectedEmbeddingDimensions svc)
                      (embeddingResults svc (entities extraction) ! j)"
  shows "\<exists>store'. buildGraphFromDocument svc text store =
             Some (Inl (DimensionMismatch (expectedEmbeddingDimensions svc) (length v)), store') \<and>
           edgeTable store' = edgeTable store \<and>
           writes store' = writes store @ map (nodeWrite (unicodeLower svc)) (take i (entities extraction)) \<and>
           (i = 0 \<longrightarrow> store' = store) \<and>
           (0 < i \<longrightarrow> writes store' \<noteq> writes store)"
proof -
  let ?ents = "entities extraction"
  let ?embs = "embeddingResults svc ?ents"
  let ?xs = "zip ?ents ?embs"
  let ?d = "expectedEmbeddingDimensions svc"
  have len: "length ?embs = length ?ents" by (rule zip_embeddings_length)
  with assms(2) have ix: "i < length ?xs" by simp
  then have split: "?xs = take i ?xs @ (?ents ! i, ?embs ! i) # drop (Suc i) ?xs"
    using id_take_nth_drop [of i ?xs] by simp
  have pre: "\<forall>x \<in> set (take i ?xs). \<not> mismatch ?d (snd x)"
  proof
    fix x assume "x \<in> set (take i ?xs)"
    then obtain j where j: "j < i" "j < length ?xs" "x = ?xs ! j"
      by (auto simp: in_set_conv_nth)
    then have "snd x = ?embs ! j" by simp
    with assms(5) j show "\<not> mismatch ?d (snd x)" by simp
  qed
  have bad: "mismatch ?d (?embs ! i)"
    using assms(3,4) by (simp add: mismatch_def)
  have "nodeLoop svc ?xs Map.empty 0 store =
      (Inl (DimensionMismatch ?d (length (orElse (?embs ! i) []))), upsertNodes svc (take i ?xs) store)"
    using nodeLoop_stops [OF pre bad, of "?ents ! i" "drop (Suc i) ?xs" Map.empty 0 store] split
    by simp
  then have run: "buildGraphFromDocument svc text store =
      Some (Inl (DimensionMismatch ?d (length v)), upsertNodes svc (take i ?xs) store)"
    using assms(1,3) by (simp add: buildGraphFromDocument_def buildGraph_def orElse_def)
  have "map fst (take i ?xs) = take i ?ents"
    using len by (metis map_fst_zip take_map)
  then have "map (nodeWrite (unicodeLower svc)) (map fst (take i ?xs)) =
      map (nodeWrite (unicodeLower svc)) (take i ?ents)"
    by (rule arg_cong)
  then have "map (\<lambda>x. nodeWrite (unicodeLower svc) (fst x)) (take i ?xs) =
      map (nodeWrite (unicodeLower svc)) (take i ?ents)"
    by (simp add: comp_def)
  then have w: "writes (upsertNodes svc (take i ?xs) store) =
      writes store @ map (nodeWrite (unicodeLower svc)) (take i ?ents)"
    by (simp only: upsertNodes_writes)
  have z: "i = 0 \<longrightarrow> upsertNodes svc (take i ?xs) store = store"
    by (simp add: upsertNodes_def)
  have "0 < i \<longrightarrow> take i ?ents \<noteq> []"
    using assms(2) by auto
  with w have p: "0 < i \<longrightarrow> writes (upsertNodes svc (take i ?xs) store) \<noteq> writes store"
    by simp
  from run w z p upsertNodes_edges [of svc "take i ?xs" store] show ?thesis by blast
qed

lemma extract_feverThenAspirin:
  "GraphExtractor_extract (unicodeLower mismatchService) (llmProvider mismatchService)
     (parseExtraction mismatchService) documentText = Some (Inr feverThenAspirin)"
  by (simp add: GraphExtractor_extract_def splitIntoChunks_def documentText_def mismatchService_def
      fixedAnswer_def extractFromChunk_def feverThenAspirin_def entityKey_def toLowerCase_def
      isAscii_def toLowerUnit_def str_def)

lemma mismatchService_fields:
  "expectedEmbeddingDimensions mismatchService = 3" "clock mismatchService = 0"
  "unicodeLower mismatchService = latinLower"
  by (simp_all add: mismatchService_def)

lemma embeddings_feverThenAspirin:
  "embeddingResults mismatchService (entities feverThenAspirin) =
     [Some [Finite 1, Finite 2, Finite 3], Some [Finite 1, Finite 2]]"
  by (simp add: embeddingResults_def mismatchService_def feverThenAspirin_def str_def)

theorem buildGraph_mismatch_stops_witness:
  "GraphExtractor_extract (unicodeLower mismatchService) (llmProvider mismatchService)
     (parseExtraction mismatchService) documentText = Some (Inr feverThenAspirin) \<and>
   embeddingResults mismatchService (entities feverThenAspirin) ! 1 = Some [Finite 1, Finite 2] \<and>
   (\<exists>store'. buildGraphFromDocument mismatchService documentText emptyStore =
       Some (Inl (DimensionMismatch 3 2), store') \<and>
     edgeTable store' = edgeTable emptyStore \<and>
     writes store' =
       [nodeWrite latinLower \<lparr>entName = str ''Fever'', entType = str ''disease'', entProperties = None\<rparr>])"
proof -
  have i: "1 < length (entities feverThenAspirin)"
    by (simp add: feverThenAspirin_def)
  have v: "embeddingResults mismatchService (entities feverThenAspirin) ! 1 = Some [Finite 1, Finite 2]"
    by (simp add: embeddings_feverThenAspirin)
  have l: "length [Finite 1, Finite 2] \<noteq> expectedEmbeddingDimensions mismatchService"
    by (simp add: mismatchService_fields)
  have g: "\<forall>j < 1. \<not> mismatch (expectedEmbeddingDimensions mismatchService)
      (embeddingResults mismatchService (entities feverThenAspirin) ! j)"
    by (simp add: embeddings_feverThenAspirin mismatch_def mismatchService_fields)
  from buildGraph_mismatch_stops [OF extract_feverThenAspirin i v l g, of emptyStore]
  obtain store' where
    "buildGraphFromDocument mismatchService documentText emptyStore =
       Some (Inl (DimensionMismatch (expectedEmbeddingDimensions mismatchService)
                    (length [Finite 1, Finite 2 :: jsnum])), store')"
    "edgeTable store' = edgeTable emptyStore"
    "writes store' = writes emptyStore @
       map (nodeWrite (unicodeLower mismatchService)) (take 1 (entities feverThenAspirin))"
    by blast
  then have "buildGraphFromDocument mismatchService documentText emptyStore =
       Some (Inl (DimensionMismatch 3 2), store') \<and>
     edgeTable store' = edgeTable emptyStore \<and>
     writes store' =
       [nodeWrite latinLower \<lparr>entName = str ''Fever'', entType = str ''disease'', entProperties = None\<rparr>]"
    by (simp add: mismatchService_fields emptyStore_def feverThenAspirin_def)
  with extract_feverThenAspirin v show ?thesis by blast
qed

text \<open>
  The second entity of the extraction has the embedding of the wrong length: the build
  fails with \<open>DimensionMismatch\<close>, and the store, empty before, holds the node of the
  first entity.
\<close>

theorem buildGraph_store_unchanged_counterexample:
  "map_option fst (buildGraphFromDocument mismatchService documentText emptyStore) =
     Some (Inl (DimensionMismatch 3 2)) \<and>
   map_option (\<lambda>r. writes (snd r)) (buildGraphFromDocument mismatchService documentText emptyStore) =
     Some [UpsertNode (generateNodeId latinLower (str ''Fever'') (str ''disease''))] \<and>
   map_option (\<lambda>r. dom (nodeTable (snd r))) (buildGraphFromDocument mismatchService documentText emptyStore) =
     Some {generateNodeId latinLower (str ''Fever'') (str ''disease'')} \<and>
   writes emptyStore = [] \<and> dom (nodeTable emptyStore) = {}"
proof -
  have run: "buildGraphFromDocument mismatchService documentText emptyStore =
      Some (buildGraph mismatchService feverThenAspirin emptyStore)"
    by (simp add: buildGraphFromDocument_def extract_feverThenAspirin)
  have "buildGraph mismatchService feverThenAspirin emptyStore =
      (Inl (DimensionMismatch 3 2),
       upsertNode 0 (nodeInput latinLower
                       \<lparr>entName = str ''Fever'', entType = str ''disease'', entProperties = None\<rparr>
                       (Some [Finite 1, Finite 2, Finite 3])) emptyStore)"
    unfolding buildGraph_def embeddings_feverThenAspirin
    by (simp add: feverThenAspirin_def mismatch_def mismatchService_fields orElse_def)
  with run show ?thesis
    by (simp add: upsertNode_def nodeInput_def emptyStore_def)
qed

lemma lower_ascii_image:
  assumes "\<forall>e \<in> set ents. isAscii (entName e)" and "isAscii x"
  shows "toLowerCase lower x \<in> (\<lambda>e. toLowerCase lower (entName e)) ` set ents \<longleftrightarrow>
         map toLowerUnit x \<in> (\<lambda>e. map toLowerUnit (entName e)) ` set ents"
proof -
  have "(\<lambda>e. toLowerCase lower (entName e)) ` set ents = (\<lambda>e. map toLowerUnit (entName e)) ` set ents"
    using assms(1) by (intro image_cong) (simp_all add: toLowerCase_def)
  with assms(2) show ?thesis by (simp add: toLowerCase_def)
qed

text \<open>
  C7. When the build returns its counts, the upserts the database carried out for it are,
  in order, one node upsert for every extracted entity and one edge upsert for every
  extracted relation both of whose lower-cased ends are lower-cased names of extracted
  entities; a relation with an end that is not such a name causes no write.
  \<open>nodesCreated\<close> is the number of the node upserts and \<open>edgesCreated\<close> the number of
  the edge upserts. Lower-casing is that of the runtime; between ASCII names it makes
  equal exactly the names that differ in the case of letters only.
\<close>

theorem buildGraph_counts_upserts:
  assumes "GraphExtractor_extract (unicodeLower svc) (llmProvider svc) (parseExtraction svc) text =
      Some (Inr extraction)"
    and "buildGraphFromDocument svc text store = Some (Inr result, store')"
  shows "writes store' =
           writes store @ map (nodeWrite (unicodeLower svc)) (entities extraction) @
           map (edgeWrite (unicodeLower svc) (enterNames (unicodeLower svc) Map.empty (entities extraction)))
             (filter (resolved (unicodeLower svc) (enterNames (unicodeLower svc) Map.empty (entities extraction)))
                (relations extraction)) \<and>
         nodesCreated result = length (filter isNodeWrite (drop (length (writes store)) (writes store'))) \<and>
         edgesCreated result = length (filter isEdgeWrite (drop (length (writes store)) (writes store'))) \<and>
         nodesCreated result = length (entities extraction) \<and>
         edgesCreated result =
           length (filter (resolved (unicodeLower svc) (enterNames (unicodeLower svc) Map.empty (entities extraction)))
                     (relations extraction)) \<and>
         (\<forall>r. resolved (unicodeLower svc) (enterNames (unicodeLower svc) Map.empty (entities extraction)) r \<longleftrightarrow>
              toLowerCase (unicodeLower svc) (relSource r) \<in>
                (\<lambda>e. toLowerCase (unicodeLower svc) (entName e)) ` set (entities extraction) \<and>
              toLowerCase (unicodeLower svc) (relTarget r) \<in>
                (\<lambda>e. toLowerCase (unicodeLower svc) (entName e)) ` set (entities extraction)) \<and>
         ((\<forall>e \<in> set (entities extraction). isAscii (entName e)) \<longrightarrow>
            (\<forall>r. isAscii (relSource r) \<and> isAscii (relTarget r) \<longrightarrow>
               (resolved (unicodeLower svc) (enterNames (unicodeLower svc) Map.empty (entities extraction)) r \<longleftrightarrow>
                  map toLowerUnit (relSource r) \<in>
                    (\<lambda>e. map toLowerUnit (entName e)) ` set (entities extraction) \<and>
                  map toLowerUnit (relTarget r) \<in>
                    (\<lambda>e. map toLowerUnit (entName e)) ` set (entities extraction))))"
proof -
  let ?lower = "unicodeLower svc"
  let ?ents = "entities extraction"
  let ?xs = "zip ?ents (embeddingResults svc ?ents)"
  let ?names = "enterNames ?lower Map.empty ?ents"
  let ?rs = "filter (resolved ?lower ?names) (relations extraction)"
  have len: "length (embeddingResults svc ?ents) = length ?ents" by (rule zip_embeddings_length)
  from assms have bg: "buildGraph svc extraction store = (Inr result, store')"
    by (simp add: buildGraphFromDocument_def)
  then obtain m n s1 where nl: "nodeLoop svc ?xs Map.empty 0 store = (Inr (m, n), s1)"
    by (auto simp: buildGraph_def split: prod.splits sum.splits)
  from nodeLoop_Inr_good [OF nl] have good: "\<forall>x \<in> set ?xs. \<not> mismatch (expectedEmbeddingDimensions svc) (snd x)" .
  have fst_xs: "map fst ?xs = ?ents" using len by simp
  from nodeLoop_completes [OF good, of Map.empty 0 store] nl fst_xs len
  have m: "m = ?names" and n: "n = length ?ents" and s1: "s1 = upsertNodes svc ?xs store"
    by simp_all
  from bg nl m obtain k where el: "edgeLoop svc (relations extraction) ?names 0 s1 = (Inr k, store')"
    and res: "result = \<lparr>nodesCreated = n, edgesCreated = k\<rparr>"
    by (auto simp: buildGraph_def split: prod.splits sum.splits)
  from edgeLoop_effect [OF el]
  have k: "k = length ?rs" and w2: "writes store' = writes s1 @ map (edgeWrite ?lower ?names) ?rs"
    by simp_all
  have "map (\<lambda>x. nodeWrite ?lower (fst x)) ?xs = map (nodeWrite ?lower) (map fst ?xs)"
    by (simp add: comp_def)
  then have w1: "writes s1 = writes store @ map (nodeWrite ?lower) ?ents"
    by (simp only: s1 upsertNodes_writes fst_xs)
  have w: "writes store' = writes store @ map (nodeWrite ?lower) ?ents @ map (edgeWrite ?lower ?names) ?rs"
    by (simp add: w2 w1)
  have cn: "length (filter isNodeWrite (map (nodeWrite ?lower) ?ents @ map (edgeWrite ?lower ?names) ?rs)) =
      length ?ents"
    by (simp add: isNodeWrite_def nodeWrite_def edgeWrite_def comp_def)
  have ce: "length (filter isEdgeWrite (map (nodeWrite ?lower) ?ents @ map (edgeWrite ?lower ?names) ?rs)) =
      length ?rs"
    by (simp add: isEdgeWrite_def nodeWrite_def edgeWrite_def comp_def)
  have dr: "drop (length (writes store)) (writes store') =
      map (nodeWrite ?lower) ?ents @ map (edgeWrite ?lower ?names) ?rs"
    by (simp add: w)
  have iff: "\<forall>r. resolved ?lower ?names r \<longleftrightarrow>
      toLowerCase ?lower (relSource r) \<in> (\<lambda>e. toLowerCase ?lower (entName e)) ` set ?ents \<and>
      toLowerCase ?lower (relTarget r) \<in> (\<lambda>e. toLowerCase ?lower (entName e)) ` set ?ents"
    using enterNames_dom [of ?lower Map.empty ?ents] by (auto simp: resolved_def dom_def)
  have ascii: "(\<forall>e \<in> set ?ents. isAscii (entName e)) \<longrightarrow>
      (\<forall>r. isAscii (relSource r) \<and> isAscii (relTarget r) \<longrightarrow>
         (resolved ?lower ?names r \<longleftrightarrow>
            map toLowerUnit (relSource r) \<in> (\<lambda>e. map toLowerUnit (entName e)) ` set ?ents \<and>
            map toLowerUnit (relTarget r) \<in> (\<lambda>e. map toLowerUnit (entName e)) ` set ?ents))"
  proof (intro impI allI)
    fix r :: ExtractedRelation
    assume e: "\<forall>e \<in> set ?ents. isAscii (entName e)" and r: "isAscii (relSource r) \<and> isAscii (relTarget r)"
    from lower_ascii_image [OF e, of "relSource r" ?lower] lower_ascii_image [OF e, of "relTarget r" ?lower] r iff
    show "resolved ?lower ?names r \<longleftrightarrow>
        map toLowerUnit (relSource r) \<in> (\<lambda>e. map toLowerUnit (entName e)) ` set ?ents \<and>
        map toLowerUnit (relTarget r) \<in> (\<lambda>e. map toLowerUnit (entName e)) ` set ?ents"
      by simp
  qed
  have counts: "nodesCreated result = length ?ents" "edgesCreated result = length ?rs"
    by (simp_all add: res n k)
  have cn': "nodesCreated result = length (filter isNodeWrite (drop (length (writes store)) (writes store')))"
    by (simp only: dr cn counts)
  have ce': "edgesCreated result = length (filter isEdgeWrite (drop (length (writes store)) (writes store')))"
    by (simp only: dr ce counts)
  show ?thesis
    by (intro conjI) (rule w cn' ce' counts iff ascii)+
qed

lemma danglingService_fields:
  "expectedEmbeddingDimensions danglingService = 3" "clock danglingService = 0"
  "unicodeLower danglingService = latinLower" "columnReal danglingService = storedAsGiven"
  by (simp_all add: danglingService_def)

lemma shoutedService_fields:
  "expectedEmbeddingDimensions shoutedService = 3" "clock shoutedService = 0"
  "unicodeLower shoutedService = latinLower" "columnReal shoutedService = storedAsGiven"
  by (simp_all add: shoutedService_def)

lemma extract_dangling:
  "GraphExtractor_extract (unicodeLower danglingService) (llmProvider danglingService)
     (parseExtraction danglingService) documentText = Some (Inr danglingExtraction)"
  by (simp add: GraphExtractor_extract_def splitIntoChunks_def documentText_def danglingService_def
      fixedAnswer_def extractFromChunk_def danglingExtraction_def entityKey_def relationKey_def
      toLowerCase_def isAscii_def toLowerUnit_def str_def)

lemma extract_shouted:
  "GraphExtractor_extract (unicodeLower shoutedService) (llmProvider shoutedService)
     (parseExtraction shoutedService) documentText = Some (Inr shoutedExtraction)"
  by (simp add: GraphExtractor_extract_def splitIntoChunks_def documentText_def shoutedService_def
      fixedAnswer_def extractFromChunk_def shoutedExtraction_def entityKey_def relationKey_def
      toLowerCase_def isAscii_def toLowerUnit_def str_def)

lemma embeddings_dangling:
  "embeddingResults danglingService (entities danglingExtraction) =
     [Some [Finite 1, Finite 2, Finite 3], Some [Finite 1, Finite 2, Finite 3]]"
  by (simp add: embeddingResults_def danglingService_def danglingExtraction_def)

lemma embeddings_shouted:
  "embeddingResults shoutedService (entities shoutedExtraction) = [None, None]"
  by (simp add: embeddingResults_def shoutedService_def shoutedExtraction_def)

lemma build_dangling:
  "\<exists>store'. buildGraphFromDocument danglingService documentText emptyStore =
      Some (Inr \<lparr>nodesCreated = 2, edgesCreated = 1\<rparr>, store')"
proof -
  have run: "buildGraphFromDocument danglingService documentText emptyStore =
      Some (buildGraph danglingService danglingExtraction emptyStore)"
    by (simp add: buildGraphFromDocument_def extract_dangling)
  have "fst (buildGraph danglingService danglingExtraction emptyStore) =
      Inr \<lparr>nodesCreated = 2, edgesCreated = 1\<rparr>"
    unfolding buildGraph_def embeddings_dangling
    by (simp add: danglingExtraction_def mismatch_def danglingService_fields toLowerCase_def
        isAscii_def toLowerUnit_def upsertEdge_def storedAsGiven_def str_def split: prod.splits)
  with run show ?thesis
    by (cases "buildGraph danglingService danglingExtraction emptyStore") simp
qed

lemma build_shouted:
  "\<exists>store'. buildGraphFromDocument shoutedService documentText emptyStore =
      Some (Inr \<lparr>nodesCreated = 2, edgesCreated = 1\<rparr>, store')"
proof -
  have run: "buildGraphFromDocument shoutedService documentText emptyStore =
      Some (buildGraph shoutedService shoutedExtraction emptyStore)"
    by (simp add: buildGraphFromDocument_def extract_shouted)
  have "fst (buildGraph shoutedService shoutedExtraction emptyStore) =
      Inr \<lparr>nodesCreated = 2, edgesCreated = 1\<rparr>"
    unfolding buildGraph_def embeddings_shouted
    by (simp add: shoutedExtraction_def mismatch_def shoutedService_fields toLowerCase_def
        isAscii_def toLowerUnit_def upsertEdge_def storedAsGiven_def str_def split: prod.splits)
  with run show ?thesis
    by (cases "buildGraph shoutedService shoutedExtraction emptyStore") simp
qed

lemma resolved_shouted:
  "filter (resolved latinLower (enterNames latinLower Map.empty (entities shoutedExtraction)))
     (relations shoutedExtraction) =
   [\<lparr>relSource = str ''ASPIRIN'', relTarget = str ''fever'', relationType = str ''treats'',
     relWeight = None\<rparr>]"
  by (simp add: shoutedExtraction_def enterNames_def resolved_def toLowerCase_def isAscii_def
      toLowerUnit_def str_def)

theorem buildGraph_counts_upserts_witness:
  "GraphExtractor_extract (unicodeLower danglingService) (llmProvider danglingService)
     (parseExtraction danglingService) documentText = Some (Inr danglingExtraction) \<and>
   (\<exists>store'. buildGraphFromDocument danglingService documentText emptyStore =
       Some (Inr \<lparr>nodesCreated = 2, edgesCreated = 1\<rparr>, store') \<and>
     length (filter isNodeWrite (writes store')) = 2 \<and>
     length (filter isEdgeWrite (writes store')) = 1) \<and>
   GraphExtractor_extract (unicodeLower shoutedService) (llmProvider shoutedService)
     (parseExtraction shoutedService) documentText = Some (Inr shoutedExtraction) \<and>
   (\<exists>store'. buildGraphFromDocument shoutedService documentText emptyStore =
       Some (Inr \<lparr>nodesCreated = 2, edgesCreated = 1\<rparr>, store') \<and>
     writes store' =
       [UpsertNode (generateNodeId latinLower (str ''Aspirin'') (str ''drug'')),
        UpsertNode (generateNodeId latinLower (str ''Fever'') (str ''disease'')),
        UpsertEdge (generateEdgeId (generateNodeId latinLower (str ''Aspirin'') (str ''drug''))
                      (generateNodeId latinLower (str ''Fever'') (str ''disease'')) (str ''treats''))])"
proof -
  from build_dangling obtain store' where
    run: "buildGraphFromDocument danglingService documentText emptyStore =
      Some (Inr \<lparr>nodesCreated = 2, edgesCreated = 1\<rparr>, store')"
    by blast
  from buildGraph_counts_upserts [OF extract_dangling run]
  have "nodesCreated \<lparr>nodesCreated = 2, edgesCreated = 1\<rparr> =
      length (filter isNodeWrite (drop (length (writes emptyStore)) (writes store')))"
    "edgesCreated \<lparr>nodesCreated = 2, edgesCreated = 1\<rparr> =
      length (filter isEdgeWrite (drop (length (writes emptyStore)) (writes store')))"
    by blast+
  then have d: "length (filter isNodeWrite (writes store')) = 2"
    "length (filter isEdgeWrite (writes store')) = 1"
    by (simp_all add: emptyStore_def)
  from build_shouted obtain store2 where
    run2: "buildGraphFromDocument shoutedService documentText emptyStore =
      Some (Inr \<lparr>nodesCreated = 2, edgesCreated = 1\<rparr>, store2)"
    by blast
  from buildGraph_counts_upserts [OF extract_shouted run2]
  have "writes store2 =
      writes emptyStore @ map (nodeWrite (unicodeLower shoutedService)) (entities shoutedExtraction) @
      map (edgeWrite (unicodeLower shoutedService)
             (enterNames (unicodeLower shoutedService) Map.empty (entities shoutedExtraction)))
        (filter (resolved (unicodeLower shoutedService)
                   (enterNames (unicodeLower shoutedService) Map.empty (entities shoutedExtraction)))
           (relations shoutedExtraction))"
    by blast
  then have "writes store2 =
      map (nodeWrite latinLower) (entities shoutedExtraction) @
      map (edgeWrite latinLower (enterNames latinLower Map.empty (entities shoutedExtraction)))
        [\<lparr>relSource = str ''ASPIRIN'', relTarget = str ''fever'', relationType = str ''treats'',
          relWeight = None\<rparr>]"
    by (simp only: shoutedService_fields resolved_shouted) (simp add: emptyStore_def)
  then have s: "writes store2 =
       [UpsertNode (generateNodeId latinLower (str ''Aspirin'') (str ''drug'')),
        UpsertNode (generateNodeId latinLower (str ''Fever'') (str ''disease'')),
        UpsertEdge (generateEdgeId (generateNodeId latinLower (str ''Aspirin'') (str ''drug''))
                      (generateNodeId latinLower (str ''Fever'') (str ''disease'')) (str ''treats''))]"
    by (simp add: shoutedExtraction_def nodeWrite_def edgeWrite_def enterNames_def toLowerCase_def
        isAscii_def toLowerUnit_def orElse_def str_def)
  from extract_dangling run d extract_shouted run2 s show ?thesis by blast
qed
section \<open>A request that hits the cache\<close>





section \<open>The text that is embedded\<close>

lemma occursAt_member: "occursAt s (c # pat) k \<Longrightarrow> c \<in> set s"
proof -
  assume "occursAt s (c # pat) k"
  then have "take (Suc (length pat)) (drop k s) = c # pat" by (simp add: occursAt_def)
  then have "c \<in> set (take (Suc (length pat)) (drop k s))" by simp
  then show ?thesis by (meson in_set_dropD in_set_takeD)
qed

lemma lastOccurrenceFrom_absent: "c \<notin> set s \<Longrightarrow> lastOccurrenceFrom s (c # pat) k = - 1"
  by (induction k) (auto dest: occursAt_member)

text \<open>What \<open>lastIndexOf\<close> on a string returns is the greatest occurrence up to the position.\<close>

lemma lastOccurrenceFrom_none:
  "lastOccurrenceFrom s pat k = - 1 \<Longrightarrow> \<forall>j \<le> k. \<not> occursAt s pat j"
proof (induction k)
  case 0
  then show ?case by (simp split: if_splits)
next
  case (Suc k)
  then show ?case by (auto simp: le_Suc_eq split: if_splits)
qed

lemma lastOccurrenceFrom_greatest:
  "lastOccurrenceFrom s pat k \<noteq> - 1 \<Longrightarrow>
   0 \<le> lastOccurrenceFrom s pat k \<and> nat (lastOccurrenceFrom s pat k) \<le> k \<and>
   occursAt s pat (nat (lastOccurrenceFrom s pat k)) \<and>
   (\<forall>j. nat (lastOccurrenceFrom s pat k) < j \<and> j \<le> k \<longrightarrow> \<not> occursAt s pat j)"
proof (induction k)
  case 0
  then show ?case by (simp split: if_splits)
next
  case (Suc k)
  show ?case
  proof (cases "occursAt s pat (Suc k)")
    case True
    have "nat (1 + int k) = Suc k" by simp
    with True show ?thesis by auto
  next
    case False
    with Suc have "0 \<le> lastOccurrenceFrom s pat k \<and> nat (lastOccurrenceFrom s pat k) \<le> k \<and>
        occursAt s pat (nat (lastOccurrenceFrom s pat k)) \<and>
        (\<forall>j. nat (lastOccurrenceFrom s pat k) < j \<and> j \<le> k \<longrightarrow> \<not> occursAt s pat j)"
      by simp
    with False show ?thesis by (auto simp: le_Suc_eq)
  qed
qed

text \<open>The branches of \<open>ingestDocument\<close> other than the one for a sentence boundary.\<close>

lemma embeddingInput_short: "length s \<le> 6000 \<Longrightarrow> embeddingInput s = s"
  by (simp add: embeddingInput_def MAX_EMBEDDING_CHARS_def)

lemma embeddingInput_paragraph:
  "6000 < length s \<Longrightarrow> 3000 < lastParagraphOf s \<Longrightarrow>
   embeddingInput s = take (nat (lastParagraphOf s)) s \<and>
   occursAt s [10, 10] (nat (lastParagraphOf s)) \<and> nat (lastParagraphOf s) \<le> 6000 \<and>
   (\<forall>j. nat (lastParagraphOf s) < j \<and> j \<le> 6000 \<longrightarrow> \<not> occursAt s [10, 10] j)"
proof -
  assume l: "6000 < length s" and p: "3000 < lastParagraphOf s"
  have k: "min MAX_EMBEDDING_CHARS (length s) = 6000"
    using l by (simp add: MAX_EMBEDDING_CHARS_def)
  from p have "lastOccurrenceFrom s [10, 10] 6000 \<noteq> - 1"
    by (simp add: lastParagraphOf_def stringLastIndexOf_def k)
  from lastOccurrenceFrom_greatest [OF this] l p show ?thesis
    by (simp add: embeddingInput_def lastParagraphOf_def stringLastIndexOf_def k
        MAX_EMBEDDING_CHARS_def)
qed

lemma embeddingInput_hard_slice:
  "6000 < length s \<Longrightarrow> lastParagraphOf s \<le> 3000 \<Longrightarrow> lastSentenceOf s \<le> 3000 \<Longrightarrow>
   embeddingInput s = take 6000 s"
  by (simp add: embeddingInput_def MAX_EMBEDDING_CHARS_def)

text \<open>The row of an ingested document holds the whole text.\<close>

lemma ingestDocument_keeps_content:
  "ingestDocument engine uuid s st = Some (r, st') \<Longrightarrow>
   st' = st \<or> map_option docContent (documents st' uuid) = Some s"
  by (auto simp: ingestDocument_def upsertDocument_def split: sum.splits if_splits option.splits)

lemma sentenceDocument_paragraph: "lastParagraphOf sentenceDocument = - 1"
  unfolding lastParagraphOf_def stringLastIndexOf_def
  by (rule lastOccurrenceFrom_absent) (simp add: sentenceDocument_def)

lemma sentenceDocument_matches: "boundaryMatches sentenceDocument = Some [[12290]]"
  by (simp add: boundaryMatches_def sentenceDocument_def)

lemma sentenceDocument_sentence: "lastSentenceOf sentenceDocument = 0"
  by (simp add: lastSentenceOf_def sentenceDocument_matches arrayLastIndexOf_def)

text \<open>
  C2. The document of the ingestion scenario has its last sentence boundary at position
  4000, which is above 3000 and not above 6000, and no paragraph boundary. The text that
  is embedded is nevertheless the first 6000 code units, not the 4001 up to and including
  the boundary: \<open>lastSentence\<close> is 0, the index of the boundary in the array of matches.
\<close>

theorem embeddingInput_sentence_boundary:
  "sentenceDocument ! 4000 = 12290 \<and>
   lastParagraphOf sentenceDocument = - 1 \<and>
   lastSentenceOf sentenceDocument = 0 \<and>
   embeddingInput sentenceDocument = take 6000 sentenceDocument \<and>
   embeddingInput sentenceDocument \<noteq> take 4001 sentenceDocument"
proof -
  have len: "length sentenceDocument = 8001"
    by (simp add: sentenceDocument_def)
  have at: "sentenceDocument ! 4000 = 12290"
    by (simp add: sentenceDocument_def nth_append)
  have e: "embeddingInput sentenceDocument = take 6000 sentenceDocument"
    by (simp add: embeddingInput_def MAX_EMBEDDING_CHARS_def len sentenceDocument_paragraph
        sentenceDocument_sentence)
  have "length (take 6000 sentenceDocument) \<noteq> length (take 4001 sentenceDocument)"
    by (simp add: len)
  then have "take 6000 sentenceDocument \<noteq> take 4001 sentenceDocument"
    by metis
  with at e sentenceDocument_paragraph sentenceDocument_sentence show ?thesis by simp
qed

end
